theory Spec2Isabelle
  imports Main "HOL-Library.Sublist"
begin

section \<open>Data model of the agent runner\<close>

text \<open>
  The development follows \<^verbatim>\<open>claude-agent-runner.mjs\<close>. A task is the object
  \<^verbatim>\<open>{id, description}\<close> of the embedded \<^verbatim>\<open>tasks\<close> array.
\<close>

record task =
  task_id :: string
  description :: string

text \<open>The array \<^verbatim>\<open>tasks\<close> as the source has it.\<close>

definition embedded_tasks :: "task list" where
  "embedded_tasks =
     [\<lparr>task_id = ''TASK-002'',
       description = ''Build task card component displaying title, description, due date, priority badge, and status indicator''\<rparr>,
      \<lparr>task_id = ''TASK-004'',
       description = ''Implement quick-add task input field for rapid task creation with minimal fields''\<rparr>,
      \<lparr>task_id = ''TASK-010'',
       description = ''Implement filter panel with checkboxes/dropdowns for status, due date, priority, list, and tags''\<rparr>]"

text \<open>
  The arguments of one call of \<^verbatim>\<open>sendProgressUpdate\<close>; the field \<open>changedFiles\<close>
  is its parameter \<^verbatim>\<open>filesChanged\<close>. The two optional parameters are
  \<^verbatim>\<open>undefined\<close> when left out, which is \<open>None\<close> here. The arrays are serialised
  inside the call, before it returns, so the record holds their contents at the time of
  the call.
\<close>

record progress_update =
  status :: string
  currentTask :: string
  completedTasks :: "string list"
  changedFiles :: "string list"
  buildStatus :: "string option"
  error :: "string option"

text \<open>
  The mutable state of \<^verbatim>\<open>main\<close>: the two arrays \<^verbatim>\<open>completedTaskIds\<close> and
  \<^verbatim>\<open>filesChanged\<close>, and three logs of what the run did to the outside: the calls of
  \<^verbatim>\<open>sendProgressUpdate\<close>, the tasks for which \<^verbatim>\<open>query\<close> was called, and the
  commands given to \<^verbatim>\<open>execAsync\<close>, each in the order of the calls.
\<close>

record run_state =
  completedTaskIds :: "string list"
  filesChanged :: "string list"
  sent :: "progress_update list"
  invoked :: "task list"
  execd :: "string list"

text \<open>
  The effect of a call of \<^verbatim>\<open>sendProgressUpdate\<close> on the run: the call is entered in
  the log. The delivery is not awaited and its outcome is only printed, so nothing else
  depends on it. The request that the call transmits is defined further down, with the
  signature.
\<close>

definition sendProgressUpdate ::
  "string \<Rightarrow> string \<Rightarrow> string list \<Rightarrow> string list \<Rightarrow> string option \<Rightarrow> string option
    \<Rightarrow> run_state \<Rightarrow> run_state" where
  "sendProgressUpdate st ct done files bs err s =
     s\<lparr>sent := sent s @
        [\<lparr>status = st, currentTask = ct, completedTasks = done, changedFiles = files,
          buildStatus = bs, error = err\<rparr>]\<rparr>"

section \<open>Hooks\<close>

text \<open>
  The input of a tool hook: \<^verbatim>\<open>input.tool_name\<close> and the fields of
  \<^verbatim>\<open>input.tool_input\<close>, which are strings for the Write and Edit tools. A field that
  is absent reads as \<^verbatim>\<open>undefined\<close>, also when \<^verbatim>\<open>tool_input\<close> itself is absent
  (the source reads it with \<^verbatim>\<open>?.\<close>).
\<close>

record hook_input =
  tool_name :: string
  tool_input :: "(string \<times> string) list"

datatype hook_event =
  SessionStart
  | SessionEnd
  | PreToolUse hook_input
  | PostToolUse hook_input

text \<open>JavaScript's \<^verbatim>\<open>a || b\<close> on strings that may be undefined: the empty string is falsy.\<close>

definition truthy_str :: "string option \<Rightarrow> bool" where
  "truthy_str v = (case v of None \<Rightarrow> False | Some s \<Rightarrow> s \<noteq> [])"

definition js_or :: "string option \<Rightarrow> string option \<Rightarrow> string option" where
  "js_or a b = (if truthy_str a then a else b)"

text \<open>\<^verbatim>\<open>input.tool_input?.file_path || input.tool_input?.filePath\<close>\<close>

definition tool_file_path :: "hook_input \<Rightarrow> string option" where
  "tool_file_path inp =
     js_or (map_of (tool_input inp) ''file_path'') (map_of (tool_input inp) ''filePath'')"

text \<open>
  The block shared by both tool hooks:
  \<^verbatim>\<open>if (filePath && !filesChanged.includes(filePath)) { filesChanged.push(filePath);
  await sendProgressUpdate('running', '', completedTaskIds, filesChanged); }\<close>
\<close>

definition record_file :: "string option \<Rightarrow> run_state \<Rightarrow> run_state" where
  "record_file filePath s =
     (case filePath of
        None \<Rightarrow> s
      | Some p \<Rightarrow>
          if p \<noteq> [] \<and> p \<notin> set (filesChanged s) then
            (let s1 = s\<lparr>filesChanged := filesChanged s @ [p]\<rparr>
             in sendProgressUpdate ''running'' [] (completedTaskIds s1) (filesChanged s1)
                  None None s1)
          else s)"

definition hook_SessionStart :: "run_state \<Rightarrow> run_state" where
  "hook_SessionStart s =
     sendProgressUpdate ''running'' ''Initializing Claude Agent SDK...'' [] [] None None s"

definition hook_SessionEnd :: "task list \<Rightarrow> run_state \<Rightarrow> run_state" where
  "hook_SessionEnd tasks s =
     (let allTaskIds = map task_id tasks
      in sendProgressUpdate ''completed'' ''All tasks completed'' allTaskIds (filesChanged s)
           (Some ''success'') None s)"

definition hook_PreToolUse :: "hook_input \<Rightarrow> run_state \<Rightarrow> run_state" where
  "hook_PreToolUse inp s =
     (if tool_name inp = ''Write'' \<or> tool_name inp = ''Edit''
      then record_file (tool_file_path inp) s
      else s)"

text \<open>The branches for Bash, BashOutput and the other tools only log.\<close>

definition hook_PostToolUse :: "hook_input \<Rightarrow> run_state \<Rightarrow> run_state" where
  "hook_PostToolUse inp s =
     (if tool_name inp = ''Write'' \<or> tool_name inp = ''Edit''
      then record_file (tool_file_path inp) s
      else if tool_name inp = ''Bash'' \<or> tool_name inp = ''BashOutput'' then s
      else s)"

fun run_hook :: "task list \<Rightarrow> hook_event \<Rightarrow> run_state \<Rightarrow> run_state" where
  "run_hook tasks SessionStart s = hook_SessionStart s"
| "run_hook tasks SessionEnd s = hook_SessionEnd tasks s"
| "run_hook tasks (PreToolUse inp) s = hook_PreToolUse inp s"
| "run_hook tasks (PostToolUse inp) s = hook_PostToolUse inp s"

text \<open>The state at the start of \<^verbatim>\<open>main\<close>, before its first notification.\<close>

definition init_state :: run_state where
  "init_state = \<lparr>completedTaskIds = [], filesChanged = [], sent = [], invoked = [], execd = []\<rparr>"

text \<open>
  Observations are stated over the fields of the hook's input, not over what the hooks
  read from it. An input gives the path \<open>p\<close> when its field \<^verbatim>\<open>file_path\<close> is \<open>p\<close>, or
  when it has no \<^verbatim>\<open>file_path\<close> (the field is absent or the empty string) and its
  field \<^verbatim>\<open>filePath\<close> is \<open>p\<close>: the two field names are variants, and an input that
  carries both gives the path of \<^verbatim>\<open>file_path\<close>. A hook event observes \<open>p\<close> when it is
  a PreToolUse or PostToolUse event of the Write or Edit tool whose input gives \<open>p\<close>.
\<close>

definition gives_path :: "string \<Rightarrow> (string \<times> string) list \<Rightarrow> bool" where
  "gives_path p toolInput =
     (map_of toolInput ''file_path'' = Some p
      \<or> ((map_of toolInput ''file_path'' = None \<or> map_of toolInput ''file_path'' = Some [])
          \<and> map_of toolInput ''filePath'' = Some p))"

fun observes :: "string \<Rightarrow> hook_event \<Rightarrow> bool" where
  "observes p (PreToolUse inp) =
     ((tool_name inp = ''Write'' \<or> tool_name inp = ''Edit'') \<and> gives_path p (tool_input inp))"
| "observes p (PostToolUse inp) =
     ((tool_name inp = ''Write'' \<or> tool_name inp = ''Edit'') \<and> gives_path p (tool_input inp))"
| "observes p _ = False"

section \<open>Values, errors and the message stream\<close>

text \<open>The JavaScript values that \<^verbatim>\<open>main\<close> tests for truthiness.\<close>

datatype js_value =
  JUndefined
  | JNull
  | JBool bool
  | JNum int
  | JStr string
  | JObject string

fun truthy :: "js_value \<Rightarrow> bool" where
  "truthy JUndefined = False"
| "truthy JNull = False"
| "truthy (JBool b) = b"
| "truthy (JNum n) = (n \<noteq> 0)"
| "truthy (JStr s) = (s \<noteq> [])"
| "truthy (JObject _) = True"

definition js_or_value :: "js_value \<Rightarrow> js_value \<Rightarrow> js_value" where
  "js_or_value a b = (if truthy a then a else b)"

text \<open>
  The properties that \<^verbatim>\<open>main\<close> reads from an error object of the agent boundary:
  from \<^verbatim>\<open>message.error\<close> of an \<^verbatim>\<open>error\<close> message, and from a value that the
  stream's iteration throws. An absent property is \<open>JUndefined\<close>.
\<close>

record error_fields =
  f_message :: string
  f_status :: js_value
  f_statusCode :: js_value
  f_type :: js_value
  f_cause :: js_value

text \<open>The result of a child process, as \<^verbatim>\<open>exec\<close> of \<^verbatim>\<open>node:child_process\<close> reports it.\<close>

record proc =
  exit_code :: int
  stdout :: string
  stderr :: string

text \<open>
  The values thrown in \<^verbatim>\<open>main\<close>, one constructor for each place that throws: a fault
  of the stream's iteration, the \<^verbatim>\<open>new Error\<close> of lines 377, 393, 464, 599, 689 and
  1052, the rejection of \<^verbatim>\<open>execAsync\<close>, and the TypeError of \<^verbatim>\<open>new URL\<close>.
\<close>

datatype js_error =
  IteratorFault error_fields
  | TaskExecutionFailed string
  | AgentSdkError error_fields
  | NoResultReceived
  | CannotBuild
  | BuildFailed string
  | CommandFailed string proc
  | InvalidURL string
  | GitPushFailed string string

text \<open>
  The properties \<^verbatim>\<open>status\<close>, \<^verbatim>\<open>statusCode\<close>, \<^verbatim>\<open>type\<close> and \<^verbatim>\<open>cause\<close> of a
  thrown value. The error built for an \<^verbatim>\<open>error\<close> message (lines 380 to 408) gets
  \<^verbatim>\<open>status\<close> and \<^verbatim>\<open>statusCode\<close>, \<^verbatim>\<open>type\<close> and \<^verbatim>\<open>cause\<close> only where the value
  taken from \<^verbatim>\<open>message.error\<close> is truthy; the other errors made by \<^verbatim>\<open>new Error\<close> and
  the rejections of \<^verbatim>\<open>execAsync\<close> have none of them.
\<close>

definition sdk_status :: "error_fields \<Rightarrow> js_value" where
  "sdk_status f = js_or_value (js_or_value (f_status f) (f_statusCode f)) JNull"

fun err_status :: "js_error \<Rightarrow> js_value" where
  "err_status (IteratorFault f) = f_status f"
| "err_status (AgentSdkError f) = (if truthy (sdk_status f) then sdk_status f else JUndefined)"
| "err_status _ = JUndefined"

fun err_statusCode :: "js_error \<Rightarrow> js_value" where
  "err_statusCode (IteratorFault f) = f_statusCode f"
| "err_statusCode (AgentSdkError f) =
     (if truthy (sdk_status f) then sdk_status f else JUndefined)"
| "err_statusCode _ = JUndefined"

fun err_type :: "js_error \<Rightarrow> js_value" where
  "err_type (IteratorFault f) = f_type f"
| "err_type (AgentSdkError f) =
     (if truthy (js_or_value (f_type f) JNull) then js_or_value (f_type f) JNull
      else JUndefined)"
| "err_type _ = JUndefined"

fun err_cause :: "js_error \<Rightarrow> js_value" where
  "err_cause (IteratorFault f) = f_cause f"
| "err_cause (AgentSdkError f) =
     (if truthy (js_or_value (f_cause f) JNull) then js_or_value (f_cause f) JNull
      else JUndefined)"
| "err_cause _ = JUndefined"

text \<open>The fields of \<^verbatim>\<open>errorDetails\<close> in the handler of lines 486 to 498.\<close>

definition anthropicStatusCode :: "js_error \<Rightarrow> js_value" where
  "anthropicStatusCode e = js_or_value (js_or_value (err_status e) (err_statusCode e)) JNull"

definition anthropicErrorType :: "js_error \<Rightarrow> js_value" where
  "anthropicErrorType e = js_or_value (err_type e) JNull"

definition error_cause :: "js_error \<Rightarrow> js_value" where
  "error_cause e = js_or_value (err_cause e) JNull"

definition nl :: string where
  "nl = [CHR 0x0A]"

text \<open>
  The text \<^verbatim>\<open>fullErrorMsg\<close> of lines 527 to 539. In the source every placeholder of
  these template literals is escaped (\<^verbatim>\<open>\${...}\<close>), so each piece is a constant text;
  \<^verbatim>\<open>errorDetails.stack\<close> is never empty, since it falls back to a fixed text.
\<close>

definition fullErrorMsg :: "js_error \<Rightarrow> string" where
  "fullErrorMsg e =
     ''${errorDetails.message}''
     @ (if truthy (anthropicStatusCode e)
        then nl @ ''Anthropic Status Code: ${errorDetails.anthropicStatusCode}'' else [])
     @ (if truthy (anthropicErrorType e)
        then nl @ ''Anthropic Error Type: ${errorDetails.anthropicErrorType}'' else [])
     @ nl @ ''Stack: ${errorDetails.stack}''
     @ (if truthy (error_cause e)
        then nl @ ''Cause: ${JSON.stringify(errorDetails.cause)}'' else [])"

text \<open>
  A message of the agent's stream: \<^verbatim>\<open>message.type\<close>, \<^verbatim>\<open>message.subtype\<close>,
  \<^verbatim>\<open>message.result\<close> and \<^verbatim>\<open>message.error\<close>.
\<close>

record sdk_message =
  mtype :: string
  subtype :: string
  result :: js_value
  merror :: error_fields

text \<open>
  The agent is a black box. What one call of \<^verbatim>\<open>query\<close> does, seen from \<^verbatim>\<open>main\<close>,
  is a sequence of events: the agent calls a registered hook, the stream yields a message,
  or the stream's iteration throws. The end of the list is the end of the stream.
\<close>

datatype agent_event =
  Hook hook_event
  | Yield sdk_message
  | Throw error_fields

text \<open>
  Leaving \<^verbatim>\<open>for await\<close> early (by \<^verbatim>\<open>break\<close> or by a throw in its body) closes the
  iterator. What the agent still does then is the rest of the event list: hooks run,
  messages are no longer consumed, and the first fault ends the closing and is what the
  closing throws.
\<close>

fun close_stream ::
  "task list \<Rightarrow> agent_event list \<Rightarrow> run_state \<Rightarrow> error_fields option \<times> run_state" where
  "close_stream tasks [] s = (None, s)"
| "close_stream tasks (Hook h # es) s = close_stream tasks es (run_hook tasks h s)"
| "close_stream tasks (Yield m # es) s = close_stream tasks es s"
| "close_stream tasks (Throw f # es) s = (Some f, s)"

text \<open>
  The loop \<^verbatim>\<open>for await (const message of queryResult)\<close> of lines 334 to 438. It
  returns the value of \<^verbatim>\<open>finalResult\<close> at its exit (initially \<^verbatim>\<open>null\<close>), the value
  it throws if it throws, and the state. A throw in the body closes the iterator and wins
  over a fault of the closing; after \<^verbatim>\<open>break\<close> a fault of the closing is thrown.
\<close>

fun for_await ::
  "task list \<Rightarrow> agent_event list \<Rightarrow> run_state \<Rightarrow> js_value \<times> js_error option \<times> run_state" where
  "for_await tasks [] s = (JNull, None, s)"
| "for_await tasks (Hook h # es) s = for_await tasks es (run_hook tasks h s)"
| "for_await tasks (Throw f # es) s = (JNull, Some (IteratorFault f), s)"
| "for_await tasks (Yield m # es) s =
     (if mtype m = ''result'' then
        (if subtype m = ''success'' then
           (let finalResult = result m;
                (fault, s') = close_stream tasks es s
            in (finalResult, map_option IteratorFault fault, s'))
         else
           (let (fault, s') = close_stream tasks es s
            in (JNull, Some (TaskExecutionFailed (subtype m)), s')))
      else if mtype m = ''error'' then
        (let (fault, s') = close_stream tasks es s
         in (JNull, Some (AgentSdkError (merror m)), s'))
      else for_await tasks es s)"

text \<open>
  The body of the outer \<^verbatim>\<open>try\<close> of lines 325 to 467: the loop, the handler
  \<^verbatim>\<open>catch (iteratorError)\<close> with its test \<^verbatim>\<open>if (finalResult)\<close>, and the test
  \<^verbatim>\<open>if (!finalResult)\<close> after it. \<open>Inl\<close> is the value thrown to the outer handler.
\<close>

definition run_query ::
  "task list \<Rightarrow> agent_event list \<Rightarrow> run_state \<Rightarrow> (js_error + js_value) \<times> run_state" where
  "run_query tasks events s =
     (case for_await tasks events s of
        (finalResult, thrown, s') \<Rightarrow>
          (case (case thrown of
                   None \<Rightarrow> None
                 | Some iteratorError \<Rightarrow>
                     if truthy finalResult then None else Some iteratorError) of
             Some e \<Rightarrow> (Inl e, s')
           | None \<Rightarrow>
               if \<not> truthy finalResult then (Inl NoResultReceived, s')
               else (Inr finalResult, s')))"

section \<open>Strings\<close>

text \<open>
  Strings are lists of bytes. \<^verbatim>\<open>trim\<close> removes the ASCII white space and line
  terminators at both ends; \<^verbatim>\<open>includes\<close> is the substring test; \<^verbatim>\<open>split\<close> and
  \<^verbatim>\<open>join\<close> are those of JavaScript for a separator of one character.
\<close>

definition is_space :: "char \<Rightarrow> bool" where
  "is_space ch = (ch \<in> set [CHR 0x09, CHR 0x0A, CHR 0x0B, CHR 0x0C, CHR 0x0D, CHR 0x20])"

definition trim :: "string \<Rightarrow> string" where
  "trim str = rev (dropWhile is_space (rev (dropWhile is_space str)))"

fun startsWith :: "string \<Rightarrow> string \<Rightarrow> bool" where
  "startsWith str [] = True"
| "startsWith [] (p # ps) = False"
| "startsWith (ch # str) (p # ps) = (ch = p \<and> startsWith str ps)"

fun str_includes :: "string \<Rightarrow> string \<Rightarrow> bool" where
  "str_includes [] sub = (sub = [])"
| "str_includes (ch # str) sub = (startsWith (ch # str) sub \<or> str_includes str sub)"

fun split :: "char \<Rightarrow> string \<Rightarrow> string list" where
  "split sep [] = ['''']"
| "split sep (ch # str) =
     (if ch = sep then [] # split sep str
      else (case split sep str of [] \<Rightarrow> [ch # ''''] | piece # pieces \<Rightarrow> (ch # piece) # pieces))"

fun join :: "string \<Rightarrow> string list \<Rightarrow> string" where
  "join sep [] = []"
| "join sep [x] = x"
| "join sep (x # y # ys) = x @ sep @ join sep (y # ys)"

text \<open>The decimal digits of a number, as string concatenation prints it.\<close>

function show_nat :: "nat \<Rightarrow> string" where
  "show_nat n =
     (if n < 10 then [char_of (48 + n)]
      else show_nat (n div 10) @ [char_of (48 + n mod 10)])"
  by pat_completeness auto
termination
  by (relation "measure id") auto

section \<open>File names from the status lines\<close>

text \<open>
  The regular expression \<^verbatim>\<open>/^.{1,2}s+(.+)$/\<close> of line 891, applied to a whole string.
  The dot matches every character but a line terminator. \<open>match_after n t\<close> is the match
  in which \<^verbatim>\<open>.{1,2}\<close> takes \<open>n\<close> characters: then at least one \<^verbatim>\<open>s\<close> must follow,
  \<^verbatim>\<open>s+\<close> takes the whole run of them, and the group takes the rest up to the end; when
  the run ends the string, \<^verbatim>\<open>s+\<close> gives its last \<^verbatim>\<open>s\<close> back to the group. The
  result is the text of the group. The quantifier is greedy, so two characters are tried
  before one.
\<close>

definition dot :: "char \<Rightarrow> bool" where
  "dot ch = (ch \<noteq> CHR 0x0A \<and> ch \<noteq> CHR 0x0D)"

definition match_after :: "nat \<Rightarrow> string \<Rightarrow> string option" where
  "match_after n t =
     (if n \<le> length t \<and> list_all dot (take n t) then
        (let r = drop n t;
             k = length (takeWhile (\<lambda>ch. ch = CHR ''s'') r);
             rest = drop k r
         in if k = 0 then None
            else if rest \<noteq> [] then (if list_all dot rest then Some rest else None)
            else if 2 \<le> k then Some ''s''
            else None)
      else None)"

definition regex_match :: "string \<Rightarrow> string option" where
  "regex_match t =
     (case match_after 2 t of Some g \<Rightarrow> Some g | None \<Rightarrow> match_after 1 t)"

text \<open>\<^verbatim>\<open>trimmed.split(/s+/)\<close>: the pieces between the runs of the letter s.\<close>

function split_s :: "string \<Rightarrow> string list" where
  "split_s [] = ['''']"
| "split_s (ch # str) =
     (if ch = CHR ''s'' then [] # split_s (dropWhile (\<lambda>x. x = CHR ''s'') str)
      else (case split_s str of [] \<Rightarrow> [ch # ''''] | piece # pieces \<Rightarrow> (ch # piece) # pieces))"
  by pat_completeness auto
termination
  by (relation "measure length") (auto simp: less_Suc_eq_le length_dropWhile_le)

text \<open>The function given to \<^verbatim>\<open>statusLines.map\<close> in lines 884 to 901.\<close>

definition extract_filename :: "string \<Rightarrow> string" where
  "extract_filename line =
     (let trimmed = trim line
      in case regex_match trimmed of
           Some g \<Rightarrow> trim g
         | None \<Rightarrow>
             (let parts = split_s trimmed
              in if 1 < length parts then trim (join '' '' (tl parts)) else trimmed))"

section \<open>The environment and the steps of a run\<close>

text \<open>
  What the run meets outside: the agent's events for the \<open>n\<close>-th call of \<^verbatim>\<open>query\<close>,
  given together with the task the call is made for (an agent may depend on it or not),
  the result of the \<open>n\<close>-th child process for its command line, the two optional
  environment variables, and \<^verbatim>\<open>new URL\<close>, which gives host and path name or throws.
  Calls are counted from 0.
\<close>

record env =
  agent :: "nat \<Rightarrow> task \<Rightarrow> agent_event list"
  exec :: "nat \<Rightarrow> string \<Rightarrow> proc"
  githubUrl :: "string option"
  githubToken :: "string option"
  new_URL :: "string \<Rightarrow> (string \<times> string) option"

text \<open>
  A step of \<^verbatim>\<open>main\<close> takes the state and either throws (\<open>Inl\<close>) or returns a value,
  with the state it leaves.
\<close>

type_synonym 'a run = "run_state \<Rightarrow> (js_error + 'a) \<times> run_state"

definition ret :: "'a \<Rightarrow> 'a run" where
  "ret x = (\<lambda>s. (Inr x, s))"

definition throw :: "js_error \<Rightarrow> 'a run" where
  "throw e = (\<lambda>s. (Inl e, s))"

definition bind :: "'a run \<Rightarrow> ('a \<Rightarrow> 'b run) \<Rightarrow> 'b run" where
  "bind m f = (\<lambda>s. case m s of (Inl e, s') \<Rightarrow> (Inl e, s') | (Inr x, s') \<Rightarrow> f x s')"

definition try_catch :: "'a run \<Rightarrow> (js_error \<Rightarrow> 'a run) \<Rightarrow> 'a run" where
  "try_catch m h = (\<lambda>s. case m s of (Inl e, s') \<Rightarrow> h e s' | (Inr x, s') \<Rightarrow> (Inr x, s'))"

text \<open>\<^verbatim>\<open>try { ... } catch { }\<close> with a handler that only logs.\<close>

definition try_ignore :: "'a run \<Rightarrow> unit run" where
  "try_ignore m = (\<lambda>s. case m s of (Inl e, s') \<Rightarrow> (Inr (), s') | (Inr x, s') \<Rightarrow> (Inr (), s'))"

definition act :: "(run_state \<Rightarrow> run_state) \<Rightarrow> unit run" where
  "act f = (\<lambda>s. (Inr (), f s))"

fun for_each :: "'a list \<Rightarrow> ('a \<Rightarrow> unit run) \<Rightarrow> unit run" where
  "for_each [] f = ret ()"
| "for_each (x # xs) f = bind (f x) (\<lambda>_. for_each xs f)"

text \<open>
  \<^verbatim>\<open>sendProgressUpdate\<close> with the arrays \<^verbatim>\<open>completedTaskIds\<close> and
  \<^verbatim>\<open>filesChanged\<close> of the state as third and fourth argument.
\<close>

definition notify :: "string \<Rightarrow> string \<Rightarrow> string option \<Rightarrow> string option \<Rightarrow> unit run" where
  "notify st ct bs err =
     act (\<lambda>s. sendProgressUpdate st ct (completedTaskIds s) (filesChanged s) bs err s)"

text \<open>
  \<^verbatim>\<open>execAsync\<close>, the promisified \<^verbatim>\<open>exec\<close>: the command is run, and the promise
  rejects when the child's exit code is not zero (a child ended by a signal or by the
  \<^verbatim>\<open>maxBuffer\<close> limit rejects as well and stands here with a non-zero code).
\<close>

definition execAsync :: "env \<Rightarrow> string \<Rightarrow> proc run" where
  "execAsync ev cmd =
     (\<lambda>s. let p = exec ev (length (execd s)) cmd;
              s' = s\<lparr>execd := execd s @ [cmd]\<rparr>
          in if exit_code p = 0 then (Inr p, s') else (Inl (CommandFailed cmd p), s'))"

definition run_cmd :: "env \<Rightarrow> string \<Rightarrow> unit run" where
  "run_cmd ev cmd = bind (execAsync ev cmd) (\<lambda>_. ret ())"

section \<open>The task loop\<close>

text \<open>
  \<^verbatim>\<open>query({prompt: taskPrompt, options: sdkOptions})\<close> and the \<^verbatim>\<open>try\<close> body around
  its stream, for one task. The call is entered in the log \<open>invoked\<close>.
\<close>

definition query_task :: "env \<Rightarrow> task list \<Rightarrow> task \<Rightarrow> js_value run" where
  "query_task ev tasks t =
     (\<lambda>s. run_query tasks (agent ev (length (invoked s)) t) (s\<lparr>invoked := invoked s @ [t]\<rparr>))"

text \<open>
  The loop \<^verbatim>\<open>for (const task of tasks)\<close> of lines 271 to 590. The array
  \<^verbatim>\<open>taskStatuses\<close> is only printed and is left out. The two texts with
  \<^verbatim>\<open>task.description\<close> are template literals whose placeholder is escaped.
\<close>

fun task_loop :: "env \<Rightarrow> task list \<Rightarrow> task list \<Rightarrow> unit run" where
  "task_loop ev tasks [] = ret ()"
| "task_loop ev tasks (t # rest) =
     bind (notify ''running'' (description t) None None) (\<lambda>_.
     bind (try_catch (query_task ev tasks t)
             (\<lambda>error.
                bind (notify ''error'' ''Task failed: ${task.description}'' None
                        (Some (fullErrorMsg error))) (\<lambda>_.
                throw error))) (\<lambda>finalResult.
     bind (act (\<lambda>s. s\<lparr>completedTaskIds := completedTaskIds s @ [task_id t]\<rparr>)) (\<lambda>_.
     bind (try_ignore (execAsync ev ''git status --porcelain'')) (\<lambda>_.
     bind (notify ''running'' ''Task completed: ${task.description}'' None None) (\<lambda>_.
     task_loop ev tasks rest)))))"

section \<open>Publication\<close>

text \<open>The steps inside the \<^verbatim>\<open>try\<close> of lines 700 to 1053, in their order.\<close>

definition git_init :: "env \<Rightarrow> unit run" where
  "git_init ev =
     try_catch (run_cmd ev ''git rev-parse --git-dir'') (\<lambda>_. run_cmd ev ''git init'')"

definition git_config :: "env \<Rightarrow> unit run" where
  \<open>git_config ev =
     bind (run_cmd ev ''git config user.name "VibeStack Agent"'') (\<lambda>_.
     run_cmd ev ''git config user.email "hello@vibestack.codes"'')\<close>

text \<open>The remote of lines 727 to 753; the result is \<^verbatim>\<open>remoteUrl\<close>.\<close>

definition git_remote :: "env \<Rightarrow> string \<Rightarrow> string \<Rightarrow> string run" where
  "git_remote ev url token =
     bind (try_catch (bind (execAsync ev ''git remote get-url origin'') (\<lambda>_. ret True))
             (\<lambda>_. ret False)) (\<lambda>remoteExists.
     case new_URL ev url of
       None \<Rightarrow> throw (InvalidURL url)
     | Some (host, pathname) \<Rightarrow>
         (let remoteUrl = ''https://'' @ token @ ''@'' @ host @ pathname
          in bind (if remoteExists then run_cmd ev (''git remote set-url origin '' @ remoteUrl)
                   else run_cmd ev (''git remote add origin '' @ remoteUrl)) (\<lambda>_.
             ret remoteUrl)))"

definition tempFiles :: "string list" where
  "tempFiles =
     [''claude-agent-runner.mjs'', ''read-stdout.mjs'', ''read-stderr.mjs'', ''verify.mjs'']"

definition gitignoreEntries :: string where
  "gitignoreEntries = join [] (map (\<lambda>f. f @ nl) tempFiles)"

text \<open>Lines 800 to 828.\<close>

definition update_gitignore :: "env \<Rightarrow> unit run" where
  \<open>update_gitignore ev =
     try_catch
       (bind (execAsync ev
                ''grep -q "claude-agent-runner.mjs" .gitignore 2>/dev/null || echo "missing"'')
          (\<lambda>gitignoreCheck.
             if str_includes (stdout gitignoreCheck) ''missing''
             then run_cmd ev (''echo "'' @ gitignoreEntries @ ''" >> .gitignore'')
             else ret ()))
       (\<lambda>_. try_ignore (execAsync ev (''echo "'' @ gitignoreEntries @ ''" > .gitignore'')))\<close>

text \<open>Lines 851 to 872.\<close>

definition unstage_temp_files :: "env \<Rightarrow> unit run" where
  \<open>unstage_temp_files ev =
     try_ignore
       (bind (execAsync ev ''git diff --cached --name-only'') (\<lambda>stagedFiles.
          (let filesList = filter (\<lambda>f. trim f \<noteq> []) (split (CHR 0x0A) (stdout stagedFiles));
               tempFilesStaged =
                 filter (\<lambda>f. list_ex (\<lambda>tf. str_includes f tf) tempFiles) filesList
           in if 0 < length tempFilesStaged
              then for_each tempFilesStaged
                     (\<lambda>file. run_cmd ev (''git reset HEAD "'' @ file @ ''" 2>/dev/null || true''))
              else ret ())))\<close>

text \<open>
  Lines 875 to 913: \<^verbatim>\<open>actualFilesChanged\<close> and \<^verbatim>\<open>actualFilesList\<close>, from the status
  lines or, when the status query fails, from \<^verbatim>\<open>filesChanged\<close>.
\<close>

definition actual_files :: "env \<Rightarrow> (nat \<times> string list) run" where
  "actual_files ev =
     try_catch
       (bind (execAsync ev ''git status --porcelain'') (\<lambda>gitStatusAfterCleanup.
          (let statusLines =
                 filter (\<lambda>l. trim l \<noteq> []) (split (CHR 0x0A) (stdout gitStatusAfterCleanup))
           in ret (length statusLines,
                   filter (\<lambda>f. f \<noteq> [] \<and> 0 < length f \<and> \<not> str_includes f nl)
                     (map extract_filename statusLines)))))
       (\<lambda>_. (\<lambda>s. (Inr (length (filesChanged s), filesChanged s), s)))"

text \<open>Lines 916 to 923.\<close>

definition commitMessage :: "string list \<Rightarrow> nat \<Rightarrow> string list \<Rightarrow> string" where
  "commitMessage completed actualFilesChanged actualFilesList =
     (let taskList = join nl (map (\<lambda>i. ''- '' @ i) completed);
          filesList =
            (if 0 < length actualFilesList
             then nl @ nl @ ''Files in this commit:'' @ nl
                  @ join nl (map (\<lambda>f. ''- '' @ f) (take 50 actualFilesList))
                  @ (if 50 < length actualFilesList
                     then nl @ ''... and '' @ show_nat (length actualFilesList - 50)
                          @ '' more files''
                     else [])
             else [])
      in ''feat: Generated code by Claude Code Agent'' @ nl @ nl
         @ ''Tasks completed: '' @ show_nat (length completed) @ nl
         @ ''Files changed: '' @ show_nat actualFilesChanged @ filesList @ nl @ nl
         @ ''Completed tasks:'' @ nl @ taskList)"

text \<open>
  The five replacements of lines 929 to 934 as the source has them: a backslash is
  doubled; the double quote is replaced by itself; the pattern \<^verbatim>\<open>/$/g\<close> matches once,
  at the end, where a dollar sign is put; a backtick gets a backslash before it; and
  backslash-n is replaced by itself.
\<close>

definition escapedMessage :: "string \<Rightarrow> string" where
  "escapedMessage msg =
     (let m1 = concat (map (\<lambda>ch. if ch = CHR 0x5C then [CHR 0x5C, CHR 0x5C] else [ch]) msg);
          m2 = m1;
          m3 = m2 @ ''$'';
          m4 = concat (map (\<lambda>ch. if ch = CHR 0x60 then [CHR 0x5C, CHR 0x60] else [ch]) m3);
          m5 = m4
      in m5)"

text \<open>Line 935: the commit, with the message built from the state's \<^verbatim>\<open>completedTaskIds\<close>.\<close>

definition commit_changes :: "env \<Rightarrow> nat \<Rightarrow> string list \<Rightarrow> proc run" where
  \<open>commit_changes ev actualFilesChanged actualFilesList =
     (\<lambda>s. execAsync ev
            (''git commit -m "''
             @ escapedMessage
                 (commitMessage (completedTaskIds s) actualFilesChanged actualFilesList)
             @ ''"'') s)\<close>

text \<open>The \<^verbatim>\<open>else\<close> branch of lines 773 to 952: clean up, stage, commit.\<close>

definition stage_and_commit :: "env \<Rightarrow> unit run" where
  \<open>stage_and_commit ev =
     bind (for_each tempFiles (\<lambda>tempFile. try_ignore (execAsync ev (''rm -f '' @ tempFile))))
       (\<lambda>_.
     bind (update_gitignore ev) (\<lambda>_.
     bind (for_each tempFiles
             (\<lambda>tempFile.
                try_ignore
                  (execAsync ev (''git rm --cached '' @ tempFile @ '' 2>/dev/null || true''))))
       (\<lambda>_.
     bind (run_cmd ev ''git add -A'') (\<lambda>_.
     bind (unstage_temp_files ev) (\<lambda>_.
     bind (actual_files ev) (\<lambda>(actualFilesChanged, actualFilesList).
     bind (commit_changes ev actualFilesChanged actualFilesList) (\<lambda>_.
     try_ignore (execAsync ev ''git log --oneline -1''))))))))\<close>

text \<open>Lines 757 to 952.\<close>

definition git_commit :: "env \<Rightarrow> unit run" where
  "git_commit ev =
     bind (execAsync ev ''git status --porcelain'') (\<lambda>r.
       (let gitStatus = stdout r
        in if gitStatus = [] \<or> length (trim gitStatus) = 0
           then try_ignore (execAsync ev ''git log --oneline -1'')
           else stage_and_commit ev))"

text \<open>Lines 959 to 989; the result is \<^verbatim>\<open>currentBranch\<close>.\<close>

definition git_branch :: "env \<Rightarrow> string run" where
  "git_branch ev =
     try_catch
       (bind (execAsync ev ''git branch --show-current'') (\<lambda>branchResult.
          (let branchName = trim (stdout branchResult)
           in if branchName \<noteq> [] then ret branchName
              else bind (run_cmd ev ''git checkout -b main'') (\<lambda>_. ret ''main''))))
       (\<lambda>branchError.
          bind (try_ignore (execAsync ev ''git checkout -b main'')) (\<lambda>_. ret ''main''))"

text \<open>
  The text of the error of a rejected \<^verbatim>\<open>execAsync\<close>, and
  \<^verbatim>\<open>e?.stderr || e?.message || other\<close> for such an error.
\<close>

definition command_failed_message :: "string \<Rightarrow> proc \<Rightarrow> string" where
  "command_failed_message cmd p = ''Command failed: '' @ cmd @ nl @ stderr p"

fun error_stdout :: "js_error \<Rightarrow> string" where
  "error_stdout (CommandFailed cmd p) = stdout p"
| "error_stdout _ = []"

fun error_stderr_or_message :: "js_error \<Rightarrow> string" where
  "error_stderr_or_message (CommandFailed cmd p) =
     (if stderr p \<noteq> [] then stderr p else command_failed_message cmd p)"
| "error_stderr_or_message _ = []"

text \<open>
  Lines 991 to 1030; the result is \<^verbatim>\<open>pushSucceeded\<close>, \<^verbatim>\<open>pushStdout\<close> and
  \<^verbatim>\<open>pushStderr\<close>.
\<close>

definition git_push :: "env \<Rightarrow> string \<Rightarrow> (bool \<times> string \<times> string) run" where
  "git_push ev currentBranch =
     try_catch
       (bind (execAsync ev (''git push -u origin '' @ currentBranch @ '' 2>&1''))
          (\<lambda>pushResult. ret (True, stdout pushResult, stderr pushResult)))
       (\<lambda>pushError.
          (let pushStdout = error_stdout pushError;
               pushStderr = error_stderr_or_message pushError
           in if currentBranch \<noteq> ''main'' then
                try_catch
                  (bind (execAsync ev ''git push -u origin main 2>&1'')
                     (\<lambda>pushResult. ret (True, stdout pushResult, stderr pushResult)))
                  (\<lambda>mainError.
                     ret (False,
                          (if error_stdout mainError \<noteq> [] then error_stdout mainError
                           else pushStdout),
                          (if error_stderr_or_message mainError \<noteq> []
                           then error_stderr_or_message mainError else pushStderr)))
              else ret (False, pushStdout, pushStderr)))"

text \<open>The whole \<^verbatim>\<open>try\<close> body of lines 700 to 1053.\<close>

definition publish_try :: "env \<Rightarrow> string \<Rightarrow> string \<Rightarrow> unit run" where
  "publish_try ev url token =
     bind (git_init ev) (\<lambda>_.
     bind (git_config ev) (\<lambda>_.
     bind (git_remote ev url token) (\<lambda>remoteUrl.
     bind (git_commit ev) (\<lambda>_.
     bind (git_branch ev) (\<lambda>currentBranch.
     bind (git_push ev currentBranch) (\<lambda>(pushSucceeded, pushStdout, pushStderr).
     if pushSucceeded
     then notify ''completed'' ''Code committed and pushed to GitHub'' (Some ''success'') None
     else throw (GitPushFailed (take 500 pushStdout) (take 500 pushStderr))))))))"

text \<open>
  Lines 696 to 1105: the notification, the \<^verbatim>\<open>try\<close> body and the handler
  \<^verbatim>\<open>catch (gitError)\<close>, which queries status and log for the console and then reports
  the run as completed.
\<close>

definition publish :: "env \<Rightarrow> string \<Rightarrow> string \<Rightarrow> unit run" where
  "publish ev url token =
     bind (notify ''running'' ''Committing code to GitHub...'' None None) (\<lambda>_.
     try_catch (publish_try ev url token)
       (\<lambda>gitError.
          bind (try_ignore (execAsync ev ''git status --porcelain'')) (\<lambda>_.
          bind (try_ignore (execAsync ev ''git log --oneline -1'')) (\<lambda>_.
          notify ''completed'' ''Build successful (Git push failed)'' (Some ''success'') None))))"

text \<open>
  \<^verbatim>\<open>if (githubUrl && githubToken) { ... }\<close>: the publication runs when both variables
  are set and not empty; otherwise the run only prints that it skips it.
\<close>

definition publication :: "env \<Rightarrow> unit run" where
  "publication ev =
     (case (githubUrl ev, githubToken ev) of
        (Some url, Some token) \<Rightarrow>
          if url \<noteq> [] \<and> token \<noteq> [] then publish ev url token else ret ()
      | _ \<Rightarrow> ret ())"

section \<open>Build and the whole run\<close>

text \<open>
  Lines 661 to 1126. The listing of the working directory before it is only printed and
  is left out. The two notifications around the build pass the empty array literal as
  their fourth argument. The handler \<^verbatim>\<open>catch (buildError)\<close> prints and throws again.
\<close>

definition build_and_publish :: "env \<Rightarrow> unit run" where
  "build_and_publish ev =
     bind (act (\<lambda>s. sendProgressUpdate ''running'' ''Running build command...''
                  (completedTaskIds s) [] (Some ''building'') None s)) (\<lambda>_.
     try_catch
       (bind (execAsync ev ''npm run build'') (\<lambda>r.
          if stderr r \<noteq> [] \<and> \<not> str_includes (stderr r) ''warning''
             \<and> \<not> str_includes (stderr r) ''WARN''
          then throw (BuildFailed (stderr r))
          else
            bind (act (\<lambda>s. sendProgressUpdate ''completed'' ''Build successful''
                         (completedTaskIds s) [] (Some ''success'') None s)) (\<lambda>_.
            publication ev)))
       (\<lambda>buildError. throw buildError))"

text \<open>
  \<^verbatim>\<open>main\<close>: the first notification, the task loop, the guard of lines 593 to 600, and
  the build with the publication. The look at \<^verbatim>\<open>.claude/CLAUDE.md\<close> before the loop
  only prints and is left out.
\<close>

definition main :: "env \<Rightarrow> task list \<Rightarrow> unit run" where
  "main ev tasks =
     bind (act (sendProgressUpdate ''running'' ''Starting task execution...'' [] [] None None))
       (\<lambda>_.
     bind (task_loop ev tasks tasks) (\<lambda>_.
     bind (\<lambda>s. if length (completedTaskIds s) \<noteq> length tasks
               then throw CannotBuild s else ret () s) (\<lambda>_.
     build_and_publish ev)))"

text \<open>
  The exit code of the process: \<^verbatim>\<open>main().catch\<close> exits with 1; a run that returns
  ends with 0.
\<close>

definition exit_status :: "env \<Rightarrow> task list \<Rightarrow> nat" where
  "exit_status ev tasks = (case fst (main ev tasks init_state) of Inl e \<Rightarrow> 1 | Inr u \<Rightarrow> 0)"

section \<open>The signed notification\<close>

text \<open>
  What \<^verbatim>\<open>sendProgressUpdate\<close> transmits. A JSON value is a string, an array or an
  object; an object literal of the source is a list of properties in the order written,
  where the value \<^verbatim>\<open>undefined\<close> is \<open>None\<close>.
\<close>

datatype json =
  JsonString string
  | JsonArray "json list"
  | JsonObject "(string \<times> json) list"

type_synonym js_object = "(string \<times> json option) list"

text \<open>
  The object literal \<^verbatim>\<open>payload\<close> of lines 48 to 57, for the project identifier, the
  time stamp and the arguments of the call.
\<close>

definition payload :: "string \<Rightarrow> string \<Rightarrow> progress_update \<Rightarrow> js_object" where
  "payload projectId timestamp u =
     [(''projectId'', Some (JsonString projectId)),
      (''status'', Some (JsonString (status u))),
      (''currentTask'', Some (JsonString (currentTask u))),
      (''completedTasks'', Some (JsonArray (map JsonString (completedTasks u)))),
      (''filesChanged'', Some (JsonArray (map JsonString (changedFiles u)))),
      (''buildStatus'', map_option JsonString (buildStatus u)),
      (''error'', map_option JsonString (error u)),
      (''timestamp'', Some (JsonString timestamp))]"

text \<open>
  \<^verbatim>\<open>JSON.stringify\<close> of an object writes its properties in order and leaves out those
  whose value is \<^verbatim>\<open>undefined\<close>. The text of a JSON value is the library's; it is the
  parameter \<open>text\<close>. So is \<^verbatim>\<open>createHmac('sha256', key).update(data).digest('hex')\<close>,
  the parameter \<open>hmac\<close>, with the key as its first argument.
\<close>

definition defined_properties :: "js_object \<Rightarrow> (string \<times> json) list" where
  "defined_properties obj = concat (map (\<lambda>(k, v). case v of None \<Rightarrow> [] | Some j \<Rightarrow> [(k, j)]) obj)"

definition JSON_stringify :: "(json \<Rightarrow> string) \<Rightarrow> js_object \<Rightarrow> string" where
  "JSON_stringify text obj = text (JsonObject (defined_properties obj))"

text \<open>
  Lines 70 to 72 and 99 to 102: the signature, the object \<^verbatim>\<open>{...payload, signature}\<close>
  and the body of the POST request.
\<close>

record post_request =
  signature :: string
  envelope :: js_object
  body :: string

definition webhook_request ::
  "(string \<Rightarrow> string \<Rightarrow> string) \<Rightarrow> (json \<Rightarrow> string) \<Rightarrow> string \<Rightarrow> string \<Rightarrow> string
    \<Rightarrow> progress_update \<Rightarrow> post_request" where
  "webhook_request hmac text webhookSecret projectId timestamp u =
     (let pl = payload projectId timestamp u;
          sig = hmac webhookSecret (JSON_stringify text pl);
          env = pl @ [(''signature'', Some (JsonString sig))]
      in \<lparr>signature = sig, envelope = env, body = JSON_stringify text env\<rparr>)"

text \<open>
  The receiver's side, as the specification describes it: the received object is the one
  the body denotes; the receiver takes the signature field away, serialises the rest and
  compares the keyed hash of that text with the field.
\<close>

definition without_signature :: "(string \<times> json) list \<Rightarrow> (string \<times> json) list" where
  "without_signature obj = filter (\<lambda>(k, v). k \<noteq> ''signature'') obj"

definition verify_signature ::
  "(string \<Rightarrow> string \<Rightarrow> string) \<Rightarrow> (json \<Rightarrow> string) \<Rightarrow> string \<Rightarrow> (string \<times> json) list \<Rightarrow> bool"
  where
  "verify_signature hmac text secret received =
     (map_of received ''signature''
        = Some (JsonString (hmac secret (text (JsonObject (without_signature received))))))"

section \<open>Notions used in the statements\<close>

text \<open>
  What one call of \<^verbatim>\<open>query\<close> comes to for its task, a thrown value or the result: it
  depends on the events only, not on the state in which the call is made.
\<close>

definition query_outcome :: "agent_event list \<Rightarrow> js_error + js_value" where
  "query_outcome events = fst (run_query [] events init_state)"

text \<open>
  Events before the terminal one: calls of hooks and messages of a type other than
  \<^verbatim>\<open>result\<close> and \<^verbatim>\<open>error\<close>.
\<close>

definition side_channel :: "agent_event \<Rightarrow> bool" where
  "side_channel ev =
     (case ev of
        Hook h \<Rightarrow> True
      | Yield m \<Rightarrow> mtype m \<noteq> ''result'' \<and> mtype m \<noteq> ''error''
      | Throw f \<Rightarrow> False)"

text \<open>The state after the steps of one turn of the task loop.\<close>

definition task_started :: "task \<Rightarrow> run_state \<Rightarrow> run_state" where
  "task_started t s =
     (sendProgressUpdate ''running'' (description t) (completedTaskIds s) (filesChanged s)
        None None s)\<lparr>invoked := invoked s @ [t]\<rparr>"

definition task_failed :: "task \<Rightarrow> js_error \<Rightarrow> run_state \<Rightarrow> run_state" where
  "task_failed t e s =
     sendProgressUpdate ''error'' ''Task failed: ${task.description}'' (completedTaskIds s)
       (filesChanged s) None (Some (fullErrorMsg e)) s"

definition task_completed :: "task \<Rightarrow> run_state \<Rightarrow> run_state" where
  "task_completed t s =
     sendProgressUpdate ''running'' ''Task completed: ${task.description}''
       (completedTaskIds s @ [task_id t]) (filesChanged s) None None
       (s\<lparr>completedTaskIds := completedTaskIds s @ [task_id t],
          execd := execd s @ [''git status --porcelain'']\<rparr>)"

text \<open>The state of \<^verbatim>\<open>main\<close> when the task loop begins.\<close>

definition run_started :: run_state where
  "run_started =
     sendProgressUpdate ''running'' ''Starting task execution...'' [] [] None None init_state"

text \<open>
  The child process of the build, and the two notifications around it as the source
  sends them.
\<close>

definition build_result :: "env \<Rightarrow> run_state \<Rightarrow> proc" where
  "build_result ev s = exec ev (length (execd s)) ''npm run build''"

definition building_update :: "run_state \<Rightarrow> progress_update" where
  "building_update s =
     \<lparr>status = ''running'', currentTask = ''Running build command...'',
      completedTasks = completedTaskIds s, changedFiles = [],
      buildStatus = Some ''building'', error = None\<rparr>"

definition build_successful_update :: "run_state \<Rightarrow> progress_update" where
  "build_successful_update s =
     \<lparr>status = ''completed'', currentTask = ''Build successful'',
      completedTasks = completedTaskIds s, changedFiles = [],
      buildStatus = Some ''success'', error = None\<rparr>"

definition build_started :: "run_state \<Rightarrow> run_state" where
  "build_started s = s\<lparr>sent := sent s @ [building_update s],
                         execd := execd s @ [''npm run build'']\<rparr>"

definition build_succeeded :: "run_state \<Rightarrow> run_state" where
  "build_succeeded s =
     (build_started s)\<lparr>sent := sent s @ [building_update s, build_successful_update s]\<rparr>"

text \<open>
  A step keeps the arrays and the log of queries, and only adds to the log of
  notifications.
\<close>

definition keeps :: "'a run \<Rightarrow> bool" where
  "keeps m =
     (\<forall>s. invoked (snd (m s)) = invoked s
        \<and> completedTaskIds (snd (m s)) = completedTaskIds s
        \<and> filesChanged (snd (m s)) = filesChanged s
        \<and> prefix (sent s) (sent (snd (m s))))"

text \<open>
  The last notification of a state reports the run as completed with a successful build,
  under the given text.
\<close>

definition reported :: "string \<Rightarrow> run_state \<Rightarrow> bool" where
  "reported ct s =
     (sent s \<noteq> []
      \<and> last (sent s) =
          \<lparr>status = ''completed'', currentTask = ct, completedTasks = completedTaskIds s,
           changedFiles = filesChanged s, buildStatus = Some ''success'', error = None\<rparr>)"

text \<open>
  A line of \<^verbatim>\<open>git status --porcelain\<close>: the two status characters, a space and the
  path. A status character is a space or one of the letters and signs that git prints,
  and the two are not both a space. The path is not empty and has no white space at
  either end.
\<close>

definition status_letter :: "char \<Rightarrow> bool" where
  "status_letter ch = (ch \<in> set ''MTADRCU?!'')"

definition status_code :: "char \<Rightarrow> char \<Rightarrow> bool" where
  "status_code X Y =
     ((X = CHR '' '' \<and> status_letter Y) \<or> (status_letter X \<and> Y = CHR '' '')
      \<or> (status_letter X \<and> status_letter Y))"

definition porcelain_line :: "char \<Rightarrow> char \<Rightarrow> string \<Rightarrow> string" where
  "porcelain_line X Y path = X # Y # CHR '' '' # path"

definition plain_path :: "string \<Rightarrow> bool" where
  "plain_path p =
     (case p of [] \<Rightarrow> False | ch # str \<Rightarrow> \<not> is_space ch \<and> \<not> is_space (last p))"

section \<open>Concrete runs\<close>

text \<open>Values, agents, child processes and environments for the examples.\<close>

definition no_error :: error_fields where
  "no_error =
     \<lparr>f_message = [], f_status = JUndefined, f_statusCode = JUndefined, f_type = JUndefined,
      f_cause = JUndefined\<rparr>"

definition success_message :: "js_value \<Rightarrow> sdk_message" where
  "success_message v = \<lparr>mtype = ''result'', subtype = ''success'', result = v, merror = no_error\<rparr>"

definition failure_message :: "string \<Rightarrow> sdk_message" where
  "failure_message sub = \<lparr>mtype = ''result'', subtype = sub, result = JUndefined, merror = no_error\<rparr>"

definition cleanup_fault :: error_fields where
  "cleanup_fault = no_error\<lparr>f_message := ''Claude Code process exited with code 1''\<rparr>"

definition task_A :: task where
  "task_A = \<lparr>task_id = ''A'', description = ''Build task card component''\<rparr>"

definition task_B :: task where
  "task_B = \<lparr>task_id = ''B'', description = ''Implement quick-add task input''\<rparr>"

definition task_C :: task where
  "task_C = \<lparr>task_id = ''C'', description = ''Implement filter panel''\<rparr>"

definition agent_writes :: "nat \<Rightarrow> task \<Rightarrow> agent_event list" where
  "agent_writes n t =
     [Hook SessionStart,
      Hook (PreToolUse \<lparr>tool_name = ''Write'', tool_input = [(''file_path'', ''src/App.tsx'')]\<rparr>),
      Hook (PostToolUse \<lparr>tool_name = ''Write'', tool_input = [(''file_path'', ''src/App.tsx'')]\<rparr>),
      Yield (success_message (JStr ''done''))]"

definition agent_B_fails :: "nat \<Rightarrow> task \<Rightarrow> agent_event list" where
  "agent_B_fails n t =
     (if task_id t = ''B'' then [Yield (failure_message ''error_during_execution'')]
      else agent_writes n t)"

definition exec_ok :: "nat \<Rightarrow> string \<Rightarrow> proc" where
  "exec_ok n cmd = \<lparr>exit_code = 0, stdout = [], stderr = []\<rparr>"

definition exec_git_fails :: "nat \<Rightarrow> string \<Rightarrow> proc" where
  "exec_git_fails n cmd =
     (if startsWith cmd ''git''
      then \<lparr>exit_code = 128, stdout = [], stderr = ''fatal: unable to access''\<rparr>
      else \<lparr>exit_code = 0, stdout = [], stderr = []\<rparr>)"

definition exec_build_warns :: "nat \<Rightarrow> string \<Rightarrow> proc" where
  "exec_build_warns n cmd = \<lparr>exit_code = 1, stdout = [], stderr = ''npm WARN deprecated''\<rparr>"

definition exec_build_stderr :: "nat \<Rightarrow> string \<Rightarrow> proc" where
  "exec_build_stderr n cmd = \<lparr>exit_code = 0, stdout = [], stderr = ''error TS2304''\<rparr>"

definition no_URL :: "string \<Rightarrow> (string \<times> string) option" where
  "no_URL u = None"

definition github_URL :: "string \<Rightarrow> (string \<times> string) option" where
  "github_URL u = Some (''github.com'', ''/owner/repo'')"

definition env_B_fails :: env where
  "env_B_fails =
     \<lparr>agent = agent_B_fails, exec = exec_ok, githubUrl = None, githubToken = None,
      new_URL = no_URL\<rparr>"

definition env_git_fails :: env where
  "env_git_fails =
     \<lparr>agent = agent_writes, exec = exec_git_fails,
      githubUrl = Some ''https://github.com/owner/repo'', githubToken = Some ''token'',
      new_URL = github_URL\<rparr>"

definition env_build_warns :: env where
  "env_build_warns =
     \<lparr>agent = agent_writes, exec = exec_build_warns, githubUrl = None, githubToken = None,
      new_URL = no_URL\<rparr>"

definition env_build_stderr :: env where
  "env_build_stderr =
     \<lparr>agent = agent_writes, exec = exec_build_stderr, githubUrl = None, githubToken = None,
      new_URL = no_URL\<rparr>"

definition build_rejected :: "proc \<Rightarrow> bool" where
  "build_rejected r =
     (exit_code r \<noteq> 0
      \<or> (stderr r \<noteq> [] \<and> \<not> str_includes (stderr r) ''warning''
          \<and> \<not> str_includes (stderr r) ''WARN''))"

definition state_with_files :: run_state where
  "state_with_files =
     init_state\<lparr>completedTaskIds := [''A''], filesChanged := [''src/App.tsx'', ''src/main.tsx'']\<rparr>"

section \<open>Properties of the hooks\<close>

lemma count_list_distinct_member:
  "distinct xs \<Longrightarrow> x \<in> set xs \<Longrightarrow> count_list xs x = 1"
  by (induction xs) auto

lemma filesChanged_sendProgressUpdate [simp]:
  "filesChanged (sendProgressUpdate st ct done files bs err s) = filesChanged s"
  by (simp add: sendProgressUpdate_def)

lemma completedTaskIds_sendProgressUpdate [simp]:
  "completedTaskIds (sendProgressUpdate st ct done files bs err s) = completedTaskIds s"
  by (simp add: sendProgressUpdate_def)

lemma invoked_sendProgressUpdate [simp]:
  "invoked (sendProgressUpdate st ct done files bs err s) = invoked s"
  by (simp add: sendProgressUpdate_def)

lemma execd_sendProgressUpdate [simp]:
  "execd (sendProgressUpdate st ct done files bs err s) = execd s"
  by (simp add: sendProgressUpdate_def)

lemma filesChanged_record_file:
  "filesChanged (record_file v s) =
     (case v of None \<Rightarrow> filesChanged s
      | Some p \<Rightarrow> if p \<noteq> [] \<and> p \<notin> set (filesChanged s) then filesChanged s @ [p]
                  else filesChanged s)"
  by (simp add: record_file_def Let_def split: option.splits)

lemma distinct_record_file:
  "distinct (filesChanged s) \<Longrightarrow> distinct (filesChanged (record_file v s))"
  by (simp add: filesChanged_record_file split: option.splits)

lemma subset_record_file:
  "set (filesChanged s) \<subseteq> set (filesChanged (record_file v s))"
  by (auto simp: filesChanged_record_file split: option.splits)

lemma member_record_file:
  "p \<noteq> [] \<Longrightarrow> p \<in> set (filesChanged (record_file (Some p) s))"
  by (simp add: filesChanged_record_file)

lemma distinct_run_hook:
  "distinct (filesChanged s) \<Longrightarrow> distinct (filesChanged (run_hook tasks e s))"
  by (cases e)
     (simp_all add: hook_SessionStart_def hook_SessionEnd_def hook_PreToolUse_def
        hook_PostToolUse_def distinct_record_file)

lemma subset_run_hook:
  "set (filesChanged s) \<subseteq> set (filesChanged (run_hook tasks e s))"
  by (cases e)
     (simp_all add: hook_SessionStart_def hook_SessionEnd_def hook_PreToolUse_def
        hook_PostToolUse_def subset_record_file)

text \<open>
  The hooks read a given path from the input, under either field name: this is where the
  fallback to \<^verbatim>\<open>filePath\<close> of \<^verbatim>\<open>file_path || filePath\<close> is needed.
\<close>

lemma gives_path_extracted:
  assumes "gives_path p (tool_input inp)" and "p \<noteq> []"
  shows "tool_file_path inp = Some p"
  using assms
  by (auto simp: gives_path_def tool_file_path_def js_or_def truthy_str_def)

lemma member_run_hook:
  "observes p e \<Longrightarrow> p \<noteq> [] \<Longrightarrow> p \<in> set (filesChanged (run_hook tasks e s))"
  by (cases e)
     (auto simp: hook_PreToolUse_def hook_PostToolUse_def member_record_file
        gives_path_extracted)

text \<open>
  An input that carries both fields with different paths is read as the path of
  \<^verbatim>\<open>file_path\<close>; the path under \<^verbatim>\<open>filePath\<close> is not recorded then.
\<close>

lemma both_fields_file_path_first:
  "filesChanged
     (run_hook tasks
        (PreToolUse \<lparr>tool_name = ''Write'',
                     tool_input = [(''file_path'', ''c.ts''), (''filePath'', ''d.ts'')]\<rparr>)
        init_state) = [''c.ts'']"
  by (simp add: hook_PreToolUse_def tool_file_path_def js_or_def truthy_str_def
        record_file_def init_state_def Let_def)

lemma distinct_fold_run_hook:
  "distinct (filesChanged s) \<Longrightarrow> distinct (filesChanged (fold (run_hook tasks) evs s))"
  by (induction evs arbitrary: s) (simp_all add: distinct_run_hook)

lemma subset_fold_run_hook:
  "set (filesChanged s) \<subseteq> set (filesChanged (fold (run_hook tasks) evs s))"
proof (induction evs arbitrary: s)
  case Nil
  show ?case by simp
next
  case (Cons e evs)
  have "set (filesChanged s) \<subseteq> set (filesChanged (run_hook tasks e s))"
    by (rule subset_run_hook)
  also have "\<dots> \<subseteq> set (filesChanged (fold (run_hook tasks) evs (run_hook tasks e s)))"
    by (rule Cons.IH)
  finally show ?case by simp
qed

lemma member_fold_run_hook:
  "e \<in> set evs \<Longrightarrow> observes p e \<Longrightarrow> p \<noteq> []
    \<Longrightarrow> p \<in> set (filesChanged (fold (run_hook tasks) evs s))"
proof (induction evs arbitrary: s)
  case Nil
  then show ?case by simp
next
  case (Cons x evs)
  show ?case
  proof (cases "x = e")
    case True
    with Cons.prems have "p \<in> set (filesChanged (run_hook tasks x s))"
      by (simp add: member_run_hook)
    then show ?thesis
      using subset_fold_run_hook [of "run_hook tasks x s" tasks evs] by auto
  next
    case False
    with Cons.prems have "e \<in> set evs" by simp
    with Cons.IH Cons.prems show ?thesis by simp
  qed
qed

text \<open>
  C2. In every run, after any sequence of hook events that holds at least one observation
  of a file path \<open>p\<close>, \<^verbatim>\<open>filesChanged\<close> has exactly one entry equal to \<open>p\<close>. An
  observation is a PreToolUse or PostToolUse event of the Write or Edit tool whose input
  has \<open>p\<close> in its field \<^verbatim>\<open>file_path\<close>, or in its field \<^verbatim>\<open>filePath\<close> when it has no
  \<^verbatim>\<open>file_path\<close>. A file path is a non-empty string; the events may be any number, in
  any mix of the two hooks, the two tools and the two field names, and mixed with events
  of other paths, tools and hooks.
\<close>

theorem filesChanged_exactly_one_entry:
  assumes "e \<in> set evs" and "observes p e" and "p \<noteq> []"
  shows "count_list (filesChanged (fold (run_hook tasks) evs init_state)) p = 1"
proof -
  let ?fc = "filesChanged (fold (run_hook tasks) evs init_state)"
  have "distinct ?fc"
    by (rule distinct_fold_run_hook) (simp add: init_state_def)
  moreover have "p \<in> set ?fc"
    using assms by (rule member_fold_run_hook)
  ultimately show ?thesis
    by (rule count_list_distinct_member)
qed

theorem filesChanged_exactly_one_entry_witness:
  "count_list
     (filesChanged
        (fold (run_hook [])
           [PreToolUse \<lparr>tool_name = ''Write'', tool_input = [(''filePath'', ''src/App.tsx'')]\<rparr>,
            PostToolUse \<lparr>tool_name = ''Write'', tool_input = [(''filePath'', ''src/App.tsx'')]\<rparr>,
            PostToolUse \<lparr>tool_name = ''Edit'', tool_input = [(''filePath'', ''src/App.tsx'')]\<rparr>]
           init_state))
     ''src/App.tsx'' = 1
   \<and> count_list
     (filesChanged
        (fold (run_hook [])
           [PreToolUse \<lparr>tool_name = ''Write'', tool_input = [(''file_path'', ''src/main.tsx'')]\<rparr>,
            PostToolUse \<lparr>tool_name = ''Write'', tool_input = [(''filePath'', ''src/main.tsx'')]\<rparr>,
            PreToolUse \<lparr>tool_name = ''Edit'',
                        tool_input = [(''file_path'', []), (''filePath'', ''src/main.tsx'')]\<rparr>,
            PostToolUse \<lparr>tool_name = ''Edit'', tool_input = [(''file_path'', ''src/main.tsx'')]\<rparr>]
           init_state))
     ''src/main.tsx'' = 1"
proof -
  let ?a = "PostToolUse \<lparr>tool_name = ''Edit'', tool_input = [(''filePath'', ''src/App.tsx'')]\<rparr>"
  let ?b = "PreToolUse \<lparr>tool_name = ''Write'', tool_input = [(''file_path'', ''src/main.tsx'')]\<rparr>"
  have a: "observes ''src/App.tsx'' ?a"
    by (simp add: gives_path_def)
  have b: "observes ''src/main.tsx'' ?b"
    by (simp add: gives_path_def)
  have na: "''src/App.tsx'' \<noteq> []" and nb: "''src/main.tsx'' \<noteq> []"
    by simp_all
  have "count_list
     (filesChanged
        (fold (run_hook [])
           [PreToolUse \<lparr>tool_name = ''Write'', tool_input = [(''filePath'', ''src/App.tsx'')]\<rparr>,
            PostToolUse \<lparr>tool_name = ''Write'', tool_input = [(''filePath'', ''src/App.tsx'')]\<rparr>,
            ?a]
           init_state))
     ''src/App.tsx'' = 1"
    by (rule filesChanged_exactly_one_entry [OF _ a na]) simp
  moreover have "count_list
     (filesChanged
        (fold (run_hook [])
           [?b,
            PostToolUse \<lparr>tool_name = ''Write'', tool_input = [(''filePath'', ''src/main.tsx'')]\<rparr>,
            PreToolUse \<lparr>tool_name = ''Edit'',
                        tool_input = [(''file_path'', []), (''filePath'', ''src/main.tsx'')]\<rparr>,
            PostToolUse \<lparr>tool_name = ''Edit'', tool_input = [(''file_path'', ''src/main.tsx'')]\<rparr>]
           init_state))
     ''src/main.tsx'' = 1"
    by (rule filesChanged_exactly_one_entry [OF _ b nb]) simp
  ultimately show ?thesis by simp
qed

text \<open>
  C5. Whenever the SessionEnd hook runs, in any state, it sends one notification with
  status \<^verbatim>\<open>completed\<close>, build status \<^verbatim>\<open>success\<close> and, as completed tasks, the
  identifiers of all tasks of the configured list, whatever \<^verbatim>\<open>completedTaskIds\<close> holds.
\<close>

theorem SessionEnd_reports_all_tasks:
  "sent (run_hook tasks SessionEnd s) =
     sent s @
       [\<lparr>status = ''completed'', currentTask = ''All tasks completed'',
         completedTasks = map task_id tasks, changedFiles = filesChanged s,
         buildStatus = Some ''success'', error = None\<rparr>]"
  by (simp add: hook_SessionEnd_def sendProgressUpdate_def)

section \<open>The outcome of a query\<close>

text \<open>
  The outcome of a query does not depend on the state: hooks change the state only, and
  the tests of the loop read the messages only.
\<close>

lemma close_stream_fault:
  "fst (close_stream tasks es s) = fst (close_stream tasks' es s')"
  by (induction tasks es s arbitrary: s' rule: close_stream.induct) simp_all

lemma for_await_result:
  "fst (for_await tasks es s) = fst (for_await tasks' es s')
   \<and> fst (snd (for_await tasks es s)) = fst (snd (for_await tasks' es s'))"
proof (induction tasks es s arbitrary: s' rule: for_await.induct)
  case (4 tasks m es s)
  then show ?case
    using close_stream_fault [of tasks es s tasks' s']
    by (auto simp: Let_def split: prod.splits)
qed simp_all

lemma run_query_outcome: "fst (run_query tasks es s) = query_outcome es"
  using for_await_result [of tasks es s "[]" init_state]
  by (auto simp: run_query_def query_outcome_def split: prod.splits option.splits)

section \<open>Steps that keep the arrays\<close>

lemma keeps_ret: "keeps (ret x)"
  by (simp add: keeps_def ret_def)

lemma keeps_throw: "keeps (throw e)"
  by (simp add: keeps_def throw_def)

lemma keeps_bind: "keeps m \<Longrightarrow> (\<And>x. keeps (f x)) \<Longrightarrow> keeps (bind m f)"
  unfolding keeps_def bind_def
  by (auto split: prod.splits sum.splits) (metis snd_conv prefix_order.trans)+

lemma keeps_try_catch: "keeps m \<Longrightarrow> (\<And>e. keeps (h e)) \<Longrightarrow> keeps (try_catch m h)"
  unfolding keeps_def try_catch_def
  by (auto split: prod.splits sum.splits) (metis snd_conv prefix_order.trans)+

lemma keeps_try_ignore: "keeps m \<Longrightarrow> keeps (try_ignore m)"
  unfolding keeps_def try_ignore_def
  by (auto split: prod.splits sum.splits) (metis snd_conv)+

lemma keeps_notify: "keeps (notify st ct bs err)"
  by (simp add: keeps_def notify_def act_def sendProgressUpdate_def)

lemma keeps_execAsync: "keeps (execAsync ev cmd)"
  by (simp add: keeps_def execAsync_def Let_def)

lemma keeps_run_cmd: "keeps (run_cmd ev cmd)"
  by (simp add: run_cmd_def keeps_bind keeps_execAsync keeps_ret)

lemma keeps_for_each: "(\<And>x. keeps (f x)) \<Longrightarrow> keeps (for_each xs f)"
  by (induction xs) (simp_all add: keeps_ret keeps_bind)

lemma keeps_if: "keeps a \<Longrightarrow> keeps b \<Longrightarrow> keeps (if c then a else b)"
  by simp

lemmas keeps_rules =
  keeps_ret keeps_throw keeps_bind keeps_try_catch keeps_try_ignore keeps_notify
  keeps_execAsync keeps_run_cmd keeps_for_each keeps_if

lemma keeps_git_init: "keeps (git_init ev)"
  unfolding git_init_def by (intro keeps_rules)

lemma keeps_git_config: "keeps (git_config ev)"
  unfolding git_config_def by (intro keeps_rules)

lemma keeps_git_remote: "keeps (git_remote ev url token)"
  unfolding git_remote_def Let_def
  by (intro keeps_rules) (auto split: option.splits intro!: keeps_rules)

lemma keeps_update_gitignore: "keeps (update_gitignore ev)"
  unfolding update_gitignore_def by (intro keeps_rules)

lemma keeps_unstage_temp_files: "keeps (unstage_temp_files ev)"
  unfolding unstage_temp_files_def Let_def by (intro keeps_rules)

lemma keeps_actual_files: "keeps (actual_files ev)"
  unfolding actual_files_def Let_def
  by (intro keeps_rules) (simp add: keeps_def)

lemma keeps_case_prod: "(\<And>a b. keeps (f a b)) \<Longrightarrow> keeps (case_prod f x)"
  by (cases x) simp

lemma keeps_commit_changes: "keeps (commit_changes ev n files)"
  using keeps_execAsync by (simp add: keeps_def commit_changes_def)

lemma keeps_stage_and_commit: "keeps (stage_and_commit ev)"
  unfolding stage_and_commit_def
  by (intro keeps_rules keeps_update_gitignore keeps_unstage_temp_files keeps_actual_files
        keeps_case_prod keeps_commit_changes)

lemma keeps_git_commit: "keeps (git_commit ev)"
  unfolding git_commit_def Let_def
  by (intro keeps_rules keeps_stage_and_commit)

lemma keeps_git_branch: "keeps (git_branch ev)"
  unfolding git_branch_def Let_def
  by (intro keeps_rules)

lemma keeps_git_push: "keeps (git_push ev branch)"
  unfolding git_push_def Let_def
  by (intro keeps_rules)

lemma keeps_publish_try: "keeps (publish_try ev url token)"
  unfolding publish_try_def
  by (intro keeps_rules keeps_case_prod keeps_git_init keeps_git_config keeps_git_remote
        keeps_git_commit keeps_git_branch keeps_git_push)

lemma keeps_publish: "keeps (publish ev url token)"
  unfolding publish_def
  by (intro keeps_rules keeps_publish_try)

lemma keeps_publication: "keeps (publication ev)"
  unfolding publication_def
  by (auto split: option.splits intro!: keeps_rules keeps_publish)

lemma keeps_build_and_publish: "keeps (build_and_publish ev)"
  unfolding build_and_publish_def
  apply (intro keeps_rules keeps_publication)
   apply (simp add: keeps_def act_def sendProgressUpdate_def)
  apply (simp add: keeps_def act_def sendProgressUpdate_def)
  done

section \<open>The task loop\<close>

lemma run_hook_same:
  "invoked (run_hook tasks h s) = invoked s
   \<and> completedTaskIds (run_hook tasks h s) = completedTaskIds s
   \<and> execd (run_hook tasks h s) = execd s"
  by (cases h)
     (simp_all add: hook_SessionStart_def hook_SessionEnd_def hook_PreToolUse_def
        hook_PostToolUse_def record_file_def Let_def split: option.splits)

lemma close_stream_same:
  "invoked (snd (close_stream tasks es s)) = invoked s
   \<and> completedTaskIds (snd (close_stream tasks es s)) = completedTaskIds s
   \<and> execd (snd (close_stream tasks es s)) = execd s"
  by (induction tasks es s rule: close_stream.induct) (simp_all add: run_hook_same)

lemma for_await_same:
  "invoked (snd (snd (for_await tasks es s))) = invoked s
   \<and> completedTaskIds (snd (snd (for_await tasks es s))) = completedTaskIds s
   \<and> execd (snd (snd (for_await tasks es s))) = execd s"
  by (induction tasks es s rule: for_await.induct)
     (simp_all add: run_hook_same close_stream_same Let_def split: prod.splits,
      (metis close_stream_same snd_conv)+)

lemma run_query_same:
  "invoked (snd (run_query tasks es s)) = invoked s
   \<and> completedTaskIds (snd (run_query tasks es s)) = completedTaskIds s
   \<and> execd (snd (run_query tasks es s)) = execd s"
  using for_await_same [of tasks es s]
  by (auto simp: run_query_def split: prod.splits option.splits)

lemma task_loop_Cons:
  "task_loop ev tasks (t # rest) s =
     (case run_query tasks (agent ev (length (invoked s)) t) (task_started t s) of
        (Inl e, s') \<Rightarrow> (Inl e, task_failed t e s')
      | (Inr v, s') \<Rightarrow> task_loop ev tasks rest (task_completed t s'))"
  by (simp add: bind_def try_catch_def try_ignore_def notify_def act_def query_task_def
        throw_def execAsync_def Let_def task_failed_def task_completed_def task_started_def
        sendProgressUpdate_def
      split: prod.splits sum.splits)

declare task_loop.simps(2) [simp del]

lemma for_await_thrown:
  "fst (snd (for_await tasks es s)) = Some e \<Longrightarrow> e \<noteq> CannotBuild"
  by (induction tasks es s rule: for_await.induct)
     (auto simp: Let_def split: prod.splits if_splits)

lemma run_query_error: "fst (run_query tasks es s) = Inl e \<Longrightarrow> e \<noteq> CannotBuild"
  using for_await_thrown [of tasks es s]
  by (auto simp: run_query_def split: prod.splits option.splits if_splits)

lemma task_started_fields [simp]:
  "invoked (task_started t s) = invoked s @ [t]"
  "completedTaskIds (task_started t s) = completedTaskIds s"
  "execd (task_started t s) = execd s"
  by (simp_all add: task_started_def)

lemma task_failed_fields [simp]:
  "invoked (task_failed t e s) = invoked s"
  "completedTaskIds (task_failed t e s) = completedTaskIds s"
  "execd (task_failed t e s) = execd s"
  by (simp_all add: task_failed_def)

lemma task_completed_fields [simp]:
  "invoked (task_completed t s) = invoked s"
  "completedTaskIds (task_completed t s) = completedTaskIds s @ [task_id t]"
  "execd (task_completed t s) = execd s @ [''git status --porcelain'']"
  by (simp_all add: task_completed_def)

lemma run_query_cases:
  obtains (fails) e s' where "run_query tasks es s = (Inl e, s')" "query_outcome es = Inl e"
      "invoked s' = invoked s" "completedTaskIds s' = completedTaskIds s" "execd s' = execd s"
    | (succeeds) v s' where "run_query tasks es s = (Inr v, s')" "query_outcome es = Inr v"
      "invoked s' = invoked s" "completedTaskIds s' = completedTaskIds s" "execd s' = execd s"
proof (cases "run_query tasks es s")
  case (Pair r s')
  then have "fst (run_query tasks es s) = r" "snd (run_query tasks es s) = s'" by simp_all
  with run_query_outcome [of tasks es s] run_query_same [of tasks es s]
  have *: "query_outcome es = r" "invoked s' = invoked s"
    "completedTaskIds s' = completedTaskIds s" "execd s' = execd s"
    by auto
  show ?thesis
  proof (cases r)
    case (Inl e)
    with Pair * show ?thesis by (intro fails [of e s']) simp_all
  next
    case (Inr v)
    with Pair * show ?thesis by (intro succeeds [of v s']) simp_all
  qed
qed

lemma task_loop_first_failure:
  assumes "k < length ts"
    and "\<forall>i<k. \<exists>v. query_outcome (agent ev (length (invoked s) + i) (ts ! i)) = Inr v"
    and "query_outcome (agent ev (length (invoked s) + k) (ts ! k)) = Inl e"
  shows "fst (task_loop ev tasks ts s) = Inl e
    \<and> completedTaskIds (snd (task_loop ev tasks ts s))
        = completedTaskIds s @ map task_id (take k ts)
    \<and> invoked (snd (task_loop ev tasks ts s)) = invoked s @ take (Suc k) ts"
  using assms
proof (induction ts arbitrary: s k)
  case Nil
  then show ?case by simp
next
  case (Cons t rest)
  let ?es = "agent ev (length (invoked s)) t"
  show ?case
  proof (cases tasks ?es "task_started t s" rule: run_query_cases)
    case (fails e' s')
    have "k = 0"
    proof (rule ccontr)
      assume "k \<noteq> 0"
      then have "0 < k" by simp
      with Cons.prems(2) have "\<exists>v. query_outcome ?es = Inr v"
        by (metis add.right_neutral nth_Cons_0)
      with fails show False by simp
    qed
    with Cons.prems(3) fails have "e' = e" by simp
    with fails \<open>k = 0\<close> show ?thesis
      by (simp add: task_loop_Cons)
  next
    case (succeeds v s')
    have "k \<noteq> 0"
      using Cons.prems(3) succeeds by (cases k) auto
    then obtain k' where k: "k = Suc k'" by (cases k) auto
    let ?s2 = "task_completed t s'"
    have len: "length (invoked ?s2) = Suc (length (invoked s))"
      using succeeds by simp
    have 1: "k' < length rest" using Cons.prems(1) k by simp
    have 2: "\<forall>i<k'. \<exists>v. query_outcome (agent ev (length (invoked ?s2) + i) (rest ! i)) = Inr v"
    proof (intro allI impI)
      fix i assume "i < k'"
      then have "Suc i < k" using k by simp
      with Cons.prems(2) have "\<exists>v. query_outcome (agent ev (length (invoked s) + Suc i) ((t # rest) ! Suc i)) = Inr v"
        by blast
      then show "\<exists>v. query_outcome (agent ev (length (invoked ?s2) + i) (rest ! i)) = Inr v"
        using len by simp
    qed
    have 3: "query_outcome (agent ev (length (invoked ?s2) + k') (rest ! k')) = Inl e"
      using Cons.prems(3) k len by simp
    from Cons.IH [OF 1 2 3] succeeds k show ?thesis
      by (simp add: task_loop_Cons)
  qed
qed

lemma task_loop_normal_exit:
  "task_loop ev tasks ts s = (Inr u, s') \<Longrightarrow>
     completedTaskIds s' = completedTaskIds s @ map task_id ts
     \<and> invoked s' = invoked s @ ts
     \<and> execd s' = execd s @ replicate (length ts) ''git status --porcelain''"
proof (induction ts arbitrary: s)
  case Nil
  then show ?case by (simp add: ret_def)
next
  case (Cons t rest)
  show ?case
  proof (cases tasks "agent ev (length (invoked s)) t" "task_started t s" rule: run_query_cases)
    case (fails e s1)
    with Cons.prems show ?thesis by (simp add: task_loop_Cons)
  next
    case (succeeds v s1)
    with Cons.prems have "task_loop ev tasks rest (task_completed t s1) = (Inr u, s')"
      by (simp add: task_loop_Cons)
    from Cons.IH [OF this] succeeds show ?thesis
      by (simp add: replicate_append_same)
  qed
qed

lemma task_loop_all_succeed:
  assumes "\<forall>i<length ts. \<exists>v. query_outcome (agent ev (length (invoked s) + i) (ts ! i)) = Inr v"
  shows "fst (task_loop ev tasks ts s) = Inr ()"
  using assms
proof (induction ts arbitrary: s)
  case Nil
  then show ?case by (simp add: ret_def)
next
  case (Cons t rest)
  show ?case
  proof (cases tasks "agent ev (length (invoked s)) t" "task_started t s" rule: run_query_cases)
    case (fails e s1)
    from Cons.prems have "\<exists>v. query_outcome (agent ev (length (invoked s)) t) = Inr v"
      by (metis add.right_neutral nth_Cons_0 length_greater_0_conv list.discI)
    with fails show ?thesis by simp
  next
    case (succeeds v s1)
    let ?s2 = "task_completed t s1"
    have "\<forall>i<length rest. \<exists>v. query_outcome (agent ev (length (invoked ?s2) + i) (rest ! i)) = Inr v"
    proof (intro allI impI)
      fix i assume "i < length rest"
      then have "Suc i < length (t # rest)" by simp
      with Cons.prems have "\<exists>v. query_outcome (agent ev (length (invoked s) + Suc i) ((t # rest) ! Suc i)) = Inr v"
        by blast
      then show "\<exists>v. query_outcome (agent ev (length (invoked ?s2) + i) (rest ! i)) = Inr v"
        using succeeds by simp
    qed
    from Cons.IH [OF this] succeeds show ?thesis
      by (simp add: task_loop_Cons)
  qed
qed

lemma task_loop_invoked_prefix:
  "\<exists>n. invoked (snd (task_loop ev tasks ts s)) = invoked s @ take n ts"
proof (induction ts arbitrary: s)
  case Nil
  show ?case by (simp add: ret_def)
next
  case (Cons t rest)
  show ?case
  proof (cases tasks "agent ev (length (invoked s)) t" "task_started t s" rule: run_query_cases)
    case (fails e s1)
    then have "invoked (snd (task_loop ev tasks (t # rest) s)) = invoked s @ take 1 (t # rest)"
      by (simp add: task_loop_Cons)
    then show ?thesis by blast
  next
    case (succeeds v s1)
    from Cons.IH [of "task_completed t s1"] obtain n where
      "invoked (snd (task_loop ev tasks rest (task_completed t s1)))
         = invoked (task_completed t s1) @ take n rest" by blast
    with succeeds have "invoked (snd (task_loop ev tasks (t # rest) s))
        = invoked s @ take (Suc n) (t # rest)"
      by (simp add: task_loop_Cons)
    then show ?thesis by blast
  qed
qed

lemma task_loop_error:
  "fst (task_loop ev tasks ts s) = Inl e \<Longrightarrow> e \<noteq> CannotBuild"
proof (induction ts arbitrary: s)
  case Nil
  then show ?case by (simp add: ret_def)
next
  case (Cons t rest)
  show ?case
  proof (cases tasks "agent ev (length (invoked s)) t" "task_started t s" rule: run_query_cases)
    case (fails e' s1)
    with Cons.prems have "e' = e" by (simp add: task_loop_Cons)
    moreover have "e' \<noteq> CannotBuild"
      using fails(1) run_query_error [of tasks "agent ev (length (invoked s)) t" "task_started t s" e']
      by simp
    ultimately show ?thesis by simp
  next
    case (succeeds v s1)
    with Cons.prems Cons.IH show ?thesis by (simp add: task_loop_Cons)
  qed
qed

section \<open>The build and the publication\<close>

lemma build_and_publish_eq:
  "build_and_publish ev s =
     (let r = build_result ev s
      in if exit_code r \<noteq> 0 then (Inl (CommandFailed ''npm run build'' r), build_started s)
         else if stderr r \<noteq> [] \<and> \<not> str_includes (stderr r) ''warning''
                 \<and> \<not> str_includes (stderr r) ''WARN''
         then (Inl (BuildFailed (stderr r)), build_started s)
         else try_catch (publication ev) throw (build_succeeded s))"
  by (simp add: build_and_publish_def bind_def try_catch_def act_def execAsync_def Let_def
        throw_def build_result_def build_started_def build_succeeded_def
        building_update_def build_successful_update_def sendProgressUpdate_def
      split: prod.splits sum.splits)

lemma try_catch_throw: "try_catch m throw = m"
  by (auto simp: try_catch_def throw_def split: prod.splits sum.splits)

lemma reported_notify:
  "reported ct (snd (notify ''completed'' ct (Some ''success'') None s))"
  by (simp add: reported_def notify_def act_def sendProgressUpdate_def)

lemma bind_Inr:
  assumes "bind m f s = (Inr y, s')"
  obtains x s1 where "m s = (Inr x, s1)" "f x s1 = (Inr y, s')"
  using assms by (auto simp: bind_def split: prod.splits sum.splits)

lemma publish_try_reported:
  assumes "publish_try ev url token s = (Inr u, s')"
  shows "reported ''Code committed and pushed to GitHub'' s'"
proof -
  from assms obtain pushSucceeded pushStdout pushStderr s6 where
    last_step: "(if pushSucceeded
       then notify ''completed'' ''Code committed and pushed to GitHub'' (Some ''success'') None
       else throw (GitPushFailed (take 500 pushStdout) (take 500 pushStderr))) s6 = (Inr u, s')"
    unfolding publish_try_def
    by (elim bind_Inr) (auto split: prod.splits)
  then have "pushSucceeded" by (auto simp: throw_def split: if_splits)
  with last_step have "s' = snd (notify ''completed'' ''Code committed and pushed to GitHub'' (Some ''success'') None s6)"
    by simp
  then show ?thesis by (simp add: reported_notify)
qed

lemma try_ignore_returns: "\<exists>s'. try_ignore m s = (Inr (), s')"
  by (auto simp: try_ignore_def split: prod.splits sum.splits)

lemma notify_returns: "notify st ct bs err s = (Inr (), snd (notify st ct bs err s))"
  by (simp add: notify_def act_def)

lemma git_error_handler_reported:
  "\<exists>s'. bind (try_ignore (execAsync ev ''git status --porcelain'')) (\<lambda>_.
          bind (try_ignore (execAsync ev ''git log --oneline -1'')) (\<lambda>_.
          notify ''completed'' ''Build successful (Git push failed)'' (Some ''success'') None)) s
        = (Inr (), s') \<and> reported ''Build successful (Git push failed)'' s'"
proof -
  obtain s1 where 1: "try_ignore (execAsync ev ''git status --porcelain'') s = (Inr (), s1)"
    using try_ignore_returns by blast
  obtain s2 where 2: "try_ignore (execAsync ev ''git log --oneline -1'') s1 = (Inr (), s2)"
    using try_ignore_returns by blast
  let ?n = "notify ''completed'' ''Build successful (Git push failed)'' (Some ''success'') None"
  have "bind (try_ignore (execAsync ev ''git status --porcelain'')) (\<lambda>_.
          bind (try_ignore (execAsync ev ''git log --oneline -1'')) (\<lambda>_. ?n)) s
        = ?n s2"
    using 1 2 by (simp add: bind_def)
  then have "bind (try_ignore (execAsync ev ''git status --porcelain'')) (\<lambda>_.
          bind (try_ignore (execAsync ev ''git log --oneline -1'')) (\<lambda>_. ?n)) s
        = (Inr (), snd (?n s2))"
    by (simp add: notify_def act_def)
  moreover have "reported ''Build successful (Git push failed)'' (snd (?n s2))"
    by (rule reported_notify)
  ultimately show ?thesis by blast
qed

lemma publish_reported:
  "\<exists>s'. publish ev url token s = (Inr (), s')
     \<and> (reported ''Code committed and pushed to GitHub'' s'
        \<or> reported ''Build successful (Git push failed)'' s')"
proof -
  obtain s0 where
    n: "notify ''running'' ''Committing code to GitHub...'' None None s = (Inr (), s0)"
    using notify_returns by blast
  show ?thesis
  proof (cases "publish_try ev url token s0")
    case (Pair r s1)
    show ?thesis
    proof (cases r)
      case (Inl gitError)
      with Pair have thrown: "publish_try ev url token s0 = (Inl gitError, s1)" by simp
      have "publish ev url token s =
          bind (try_ignore (execAsync ev ''git status --porcelain'')) (\<lambda>_.
          bind (try_ignore (execAsync ev ''git log --oneline -1'')) (\<lambda>_.
          notify ''completed'' ''Build successful (Git push failed)'' (Some ''success'') None))
            s1"
        unfolding publish_def
        using n thrown by (simp add: bind_def [of "notify _ _ _ _"] try_catch_def)
      with git_error_handler_reported [of ev s1] show ?thesis
        by auto
    next
      case (Inr u)
      with Pair have returned: "publish_try ev url token s0 = (Inr u, s1)" by simp
      have "publish ev url token s = (Inr u, s1)"
        unfolding publish_def
        using n returned by (simp add: bind_def [of "notify _ _ _ _"] try_catch_def)
      with publish_try_reported [OF returned] show ?thesis
        by simp
    qed
  qed
qed

lemma publication_returns: "\<exists>s'. publication ev s = (Inr (), s')"
  using publish_reported [of ev _ _ s]
  by (auto simp: publication_def ret_def split: option.splits)

section \<open>File names from status lines\<close>

lemma length_trim: "length (trim str) \<le> length str"
  unfolding trim_def
  by (metis length_dropWhile_le length_rev order_trans)

lemma dropWhile_rev_last:
  "xs \<noteq> [] \<Longrightarrow> \<not> P (last xs) \<Longrightarrow> dropWhile P (rev xs) = rev xs"
  by (cases xs rule: rev_cases) simp_all

lemma trim_unchanged:
  "str \<noteq> [] \<Longrightarrow> \<not> is_space (hd str) \<Longrightarrow> \<not> is_space (last str) \<Longrightarrow> trim str = str"
proof -
  assume a: "str \<noteq> []" "\<not> is_space (hd str)" "\<not> is_space (last str)"
  then have "dropWhile is_space str = str" by (cases str) simp_all
  moreover have "dropWhile is_space (rev str) = rev str"
    using a by (intro dropWhile_rev_last)
  ultimately show ?thesis by (simp add: trim_def)
qed

lemma split_s_not_Nil: "split_s str \<noteq> []"
  by (induction str rule: split_s.induct) (auto split: list.splits)

lemma length_join_split_s: "length (join '' '' (split_s str)) \<le> length str"
proof (induction str rule: split_s.induct)
  case 1
  show ?case by simp
next
  case (2 ch str)
  show ?case
  proof (cases "ch = CHR ''s''")
    case True
    let ?r = "dropWhile (\<lambda>x. x = CHR ''s'') str"
    obtain piece pieces where r: "split_s ?r = piece # pieces"
      using split_s_not_Nil [of ?r] by (cases "split_s ?r") auto
    have "length (join '' '' (split_s ?r)) \<le> length ?r"
      using 2(1) True by simp
    also have "\<dots> \<le> length str" by (rule length_dropWhile_le)
    finally show ?thesis using True r by simp
  next
    case False
    obtain piece pieces where r: "split_s str = piece # pieces"
      using split_s_not_Nil [of str] by (cases "split_s str") auto
    with 2(2) False show ?thesis
      by (cases pieces) simp_all
  qed
qed

lemma length_join_tl_split_s:
  assumes "1 < length (split_s str)"
  shows "length (join '' '' (tl (split_s str))) < length str"
proof -
  from assms obtain x y ys where s: "split_s str = x # y # ys"
    by (cases "split_s str"; cases "tl (split_s str)") auto
  then have "length (join '' '' (split_s str)) = length x + 1 + length (join '' '' (y # ys))"
    by simp
  with length_join_split_s [of str] s show ?thesis by simp
qed

lemma split_s_prefix:
  "CHR ''s'' \<notin> set pre \<Longrightarrow>
     split_s (pre @ str) = (pre @ hd (split_s str)) # tl (split_s str)"
proof (induction pre)
  case Nil
  then show ?case using split_s_not_Nil [of str] by simp
next
  case (Cons ch pre)
  then show ?case by auto
qed

lemma match_after_shorter:
  assumes "match_after n t = Some g"
  shows "length g < length t - n"
proof -
  define r where "r = drop n t"
  define k where "k = length (takeWhile (\<lambda>ch. ch = CHR ''s'') r)"
  have kr: "k \<le> length r"
    unfolding k_def by (rule length_takeWhile_le)
  have lr: "length r = length t - n"
    unfolding r_def by simp
  from assms have m: "(if k = 0 then None
       else if drop k r \<noteq> [] then (if list_all dot (drop k r) then Some (drop k r) else None)
       else if 2 \<le> k then Some ''s'' else None) = Some g"
    unfolding match_after_def Let_def r_def k_def by (simp split: if_splits)
  then have "0 < k" by (simp split: if_splits)
  show ?thesis
  proof (cases "drop k r = []")
    case True
    with m have "g = ''s''" "2 \<le> k" by (simp_all split: if_splits)
    with kr lr show ?thesis by simp
  next
    case False
    with m have "g = drop k r" by (simp split: if_splits)
    moreover from False have "k < length r" by simp
    ultimately show ?thesis using \<open>0 < k\<close> lr by simp
  qed
qed

lemma match_after_no_s:
  "n < length t \<Longrightarrow> t ! n \<noteq> CHR ''s'' \<Longrightarrow> match_after n t = None"
proof -
  assume a: "n < length t" "t ! n \<noteq> CHR ''s''"
  then have "drop n t = t ! n # drop (Suc n) t"
    by (simp add: Cons_nth_drop_Suc)
  with a show ?thesis
    by (simp add: match_after_def Let_def)
qed

lemma regex_match_shorter:
  assumes "regex_match (pre @ p) = Some g" and "length pre = 2 \<or> length pre = 3"
    and "pre ! 1 \<noteq> CHR ''s''" and "length pre = 3 \<longrightarrow> pre ! 2 \<noteq> CHR ''s''"
  shows "length g < length p"
proof -
  have one: "match_after 1 (pre @ p) = None"
    using assms(2,3) by (intro match_after_no_s) (auto simp: nth_append)
  with assms(1) have two: "match_after 2 (pre @ p) = Some g"
    by (simp add: regex_match_def split: option.splits)
  show ?thesis
  proof (cases "length pre = 3")
    case True
    with assms(4) have "match_after 2 (pre @ p) = None"
      by (intro match_after_no_s) (auto simp: nth_append)
    with two show ?thesis by simp
  next
    case False
    with assms(2) have "length pre = 2" by simp
    with match_after_shorter [OF two] show ?thesis by simp
  qed
qed

lemma status_letter_facts:
  "status_letter ch \<Longrightarrow> ch \<noteq> CHR ''s'' \<and> \<not> is_space ch"
  by (auto simp: status_letter_def is_space_def)

lemma trim_leading_space:
  "trim (CHR '' '' # str) = trim str"
  by (simp add: trim_def is_space_def)

lemma extract_filename_shorter_or_longer:
  assumes t: "trim line = pre @ p" and pre: "length pre = 2 \<or> length pre = 3"
    and no_s: "CHR ''s'' \<notin> set pre"
  shows "length (extract_filename line) \<noteq> length p"
proof (cases "regex_match (pre @ p)")
  case (Some g)
  have "pre ! 1 \<in> set pre" "length pre = 3 \<longrightarrow> pre ! 2 \<in> set pre"
    using pre by auto
  with no_s have "pre ! 1 \<noteq> CHR ''s''" "length pre = 3 \<longrightarrow> pre ! 2 \<noteq> CHR ''s''"
    by metis+
  with regex_match_shorter [OF Some pre] have "length g < length p" by simp
  with length_trim [of g] have "length (trim g) < length p" by simp
  with Some t show ?thesis by (simp add: extract_filename_def)
next
  case None
  have parts: "split_s (pre @ p) = (pre @ hd (split_s p)) # tl (split_s p)"
    using no_s by (rule split_s_prefix)
  show ?thesis
  proof (cases "1 < length (split_s (pre @ p))")
    case True
    with parts have "1 < length (split_s p)"
      using split_s_not_Nil [of p] by (cases "split_s p") auto
    then have "length (join '' '' (tl (split_s p))) < length p"
      by (rule length_join_tl_split_s)
    with length_trim [of "join '' '' (tl (split_s p))"]
    have "length (trim (join '' '' (tl (split_s p)))) < length p" by simp
    moreover have "extract_filename line = trim (join '' '' (tl (split_s p)))"
      using None t True parts by (simp add: extract_filename_def Let_def)
    ultimately show ?thesis by simp
  next
    case False
    with None t have "extract_filename line = pre @ p"
      by (simp add: extract_filename_def Let_def)
    with pre show ?thesis by auto
  qed
qed

lemma trim_porcelain_line:
  assumes "status_code X Y" and "plain_path p"
  shows "trim (porcelain_line X Y p) = (if X = CHR '' '' then [Y, CHR '' ''] else [X, Y, CHR '' '']) @ p"
proof -
  from assms(2) have p: "p \<noteq> []" "\<not> is_space (last p)"
    by (auto simp: plain_path_def split: list.splits)
  show ?thesis
  proof (cases "X = CHR '' ''")
    case True
    with assms(1) have "status_letter Y"
      by (auto simp: status_code_def status_letter_def)
    then have "\<not> is_space Y" by (simp add: status_letter_facts)
    then have "trim (Y # CHR '' '' # p) = Y # CHR '' '' # p"
      using p by (intro trim_unchanged) simp_all
    with True show ?thesis
      by (simp add: porcelain_line_def trim_leading_space)
  next
    case False
    with assms(1) have "status_letter X"
      by (auto simp: status_code_def)
    then have "\<not> is_space X" by (simp add: status_letter_facts)
    then have "trim (X # Y # CHR '' '' # p) = X # Y # CHR '' '' # p"
      using p by (intro trim_unchanged) simp_all
    with False show ?thesis
      by (simp add: porcelain_line_def)
  qed
qed

text \<open>
  C9. For every status line made of two status characters, a space and a path, the file
  name that the extraction returns differs from the path: the pattern has the letter s
  where a class of white space was meant, in the regular expression and in the split of
  the fallback.
\<close>

theorem extract_filename_differs:
  assumes "status_code X Y" and "plain_path p"
  shows "extract_filename (porcelain_line X Y p) \<noteq> p"
proof -
  let ?pre = "if X = CHR '' '' then [Y, CHR '' ''] else [X, Y, CHR '' '']"
  have t: "trim (porcelain_line X Y p) = ?pre @ p"
    using assms by (rule trim_porcelain_line)
  have len: "length ?pre = 2 \<or> length ?pre = 3" by simp
  have "X \<noteq> CHR ''s''" "Y \<noteq> CHR ''s''"
    using assms(1) by (auto simp: status_code_def status_letter_def)
  then have no_s: "CHR ''s'' \<notin> set ?pre" by auto
  from extract_filename_shorter_or_longer [OF t len no_s] show ?thesis by auto
qed

theorem extract_filename_differs_witness:
  "extract_filename (porcelain_line (CHR '' '') (CHR ''M'') ''src/App.tsx'') \<noteq> ''src/App.tsx''
   \<and> extract_filename (porcelain_line (CHR ''?'') (CHR ''?'') ''newfile.txt'') \<noteq> ''newfile.txt''
   \<and> extract_filename '' M src/App.tsx'' = ''rc/App.tsx''
   \<and> extract_filename ''?? newfile.txt'' = ''?? newfile.txt''"
proof -
  have "status_code (CHR '' '') (CHR ''M'')" "status_code (CHR ''?'') (CHR ''?'')"
    by (simp_all add: status_code_def status_letter_def)
  moreover have "plain_path ''src/App.tsx''" "plain_path ''newfile.txt''"
    by (simp_all add: plain_path_def is_space_def)
  moreover have "extract_filename '' M src/App.tsx'' = ''rc/App.tsx''"
    by (simp add: extract_filename_def trim_def is_space_def regex_match_def match_after_def
          dot_def)
  moreover have "extract_filename ''?? newfile.txt'' = ''?? newfile.txt''"
    by (simp add: extract_filename_def trim_def is_space_def regex_match_def match_after_def
          dot_def)
  ultimately show ?thesis
    using extract_filename_differs [of "CHR '' ''" "CHR ''M''" "''src/App.tsx''"]
      extract_filename_differs [of "CHR ''?''" "CHR ''?''" "''newfile.txt''"]
    by simp
qed

section \<open>The whole run\<close>

lemma main_eq:
  "main ev tasks init_state =
     (case task_loop ev tasks tasks run_started of
        (Inl e, s1) \<Rightarrow> (Inl e, s1)
      | (Inr u, s1) \<Rightarrow>
          if length (completedTaskIds s1) \<noteq> length tasks then (Inl CannotBuild, s1)
          else build_and_publish ev s1)"
  by (simp add: main_def bind_def act_def run_started_def throw_def ret_def
      split: prod.splits sum.splits)

lemma run_started_fields [simp]:
  "invoked run_started = []" "completedTaskIds run_started = []" "execd run_started = []"
  by (simp_all add: run_started_def init_state_def)

lemma main_after_normal_exit:
  assumes "task_loop ev tasks tasks run_started = (Inr u, s1)"
  shows "main ev tasks init_state = build_and_publish ev s1"
  using assms task_loop_normal_exit [OF assms] by (simp add: main_eq)

lemma main_after_failure:
  assumes "fst (task_loop ev tasks tasks run_started) = Inl e"
  shows "main ev tasks init_state = (Inl e, snd (task_loop ev tasks tasks run_started))"
  using assms by (cases "task_loop ev tasks tasks run_started") (simp add: main_eq)

lemma keeps_fields:
  "keeps m \<Longrightarrow> invoked (snd (m s)) = invoked s \<and> completedTaskIds (snd (m s)) = completedTaskIds s
     \<and> filesChanged (snd (m s)) = filesChanged s \<and> prefix (sent s) (sent (snd (m s)))"
  by (simp add: keeps_def)

lemma main_invoked_prefix: "\<exists>n. invoked (snd (main ev tasks init_state)) = take n tasks"
proof (cases "task_loop ev tasks tasks run_started")
  case (Pair r s1)
  show ?thesis
  proof (cases r)
    case (Inl e)
    with Pair have "main ev tasks init_state = (Inl e, s1)" by (simp add: main_eq)
    with task_loop_invoked_prefix [of ev tasks tasks run_started] Pair show ?thesis by simp
  next
    case (Inr u)
    with Pair have loop: "task_loop ev tasks tasks run_started = (Inr u, s1)" by simp
    from task_loop_normal_exit [OF loop] have "invoked s1 = tasks" by simp
    with main_after_normal_exit [OF loop] keeps_fields [OF keeps_build_and_publish, of ev s1]
    have "invoked (snd (main ev tasks init_state)) = take (length tasks) tasks" by simp
    then show ?thesis by blast
  qed
qed

text \<open>
  C1. For every task list, the tasks for which the agent has been invoked are, at the end
  of the run, a prefix of the list, in list order. And if the invocation for the task at
  position \<open>k\<close> fails with \<open>e\<close> after the invocations before it have succeeded, the
  run throws \<open>e\<close>, \<^verbatim>\<open>completedTaskIds\<close> holds exactly the identifiers of the \<open>k\<close>
  tasks before it, and the invocations made are those of the first \<open>k + 1\<close> tasks: no
  later task is started. The \<open>i\<close>-th call of \<^verbatim>\<open>query\<close> is the one for the \<open>i\<close>-th
  task.
\<close>

theorem task_order_and_abort:
  "(\<exists>n. invoked (snd (main ev tasks init_state)) = take n tasks)
   \<and> (\<forall>k e. k < length tasks
          \<and> (\<forall>i<k. \<exists>v. query_outcome (agent ev i (tasks ! i)) = Inr v)
          \<and> query_outcome (agent ev k (tasks ! k)) = Inl e
        \<longrightarrow> fst (main ev tasks init_state) = Inl e
            \<and> completedTaskIds (snd (main ev tasks init_state)) = map task_id (take k tasks)
            \<and> invoked (snd (main ev tasks init_state)) = take (Suc k) tasks)"
proof (intro conjI allI impI)
  show "\<exists>n. invoked (snd (main ev tasks init_state)) = take n tasks"
    by (rule main_invoked_prefix)
next
  fix k e
  assume a: "k < length tasks
    \<and> (\<forall>i<k. \<exists>v. query_outcome (agent ev i (tasks ! i)) = Inr v)
    \<and> query_outcome (agent ev k (tasks ! k)) = Inl e"
  then have loop: "fst (task_loop ev tasks tasks run_started) = Inl e
    \<and> completedTaskIds (snd (task_loop ev tasks tasks run_started))
        = completedTaskIds run_started @ map task_id (take k tasks)
    \<and> invoked (snd (task_loop ev tasks tasks run_started))
        = invoked run_started @ take (Suc k) tasks"
    by (intro task_loop_first_failure) simp_all
  then have m: "main ev tasks init_state = (Inl e, snd (task_loop ev tasks tasks run_started))"
    by (intro main_after_failure) simp
  show "fst (main ev tasks init_state) = Inl e" using m by simp
  show "completedTaskIds (snd (main ev tasks init_state)) = map task_id (take k tasks)"
    using m loop by simp
  show "invoked (snd (main ev tasks init_state)) = take (Suc k) tasks"
    using m loop by simp
qed

lemma query_outcome_success [simp]:
  "query_outcome (agent_writes n t) = Inr (JStr ''done'')"
  by (simp add: query_outcome_def run_query_def agent_writes_def success_message_def Let_def)

lemma query_outcome_B [simp]:
  "query_outcome (agent_B_fails n task_B) = Inl (TaskExecutionFailed ''error_during_execution'')"
  by (simp add: query_outcome_def run_query_def agent_B_fails_def failure_message_def
        task_B_def Let_def)

theorem task_order_and_abort_witness:
  "fst (main env_B_fails [task_A, task_B, task_C] init_state)
     = Inl (TaskExecutionFailed ''error_during_execution'')
   \<and> completedTaskIds (snd (main env_B_fails [task_A, task_B, task_C] init_state)) = [''A'']
   \<and> invoked (snd (main env_B_fails [task_A, task_B, task_C] init_state)) = [task_A, task_B]"
proof -
  have "agent env_B_fails 0 task_A = agent_writes 0 task_A"
    by (simp add: env_B_fails_def agent_B_fails_def task_A_def)
  then have a0: "query_outcome (agent env_B_fails 0 task_A) = Inr (JStr ''done'')"
    by simp
  then have first: "\<forall>i<1. \<exists>v. query_outcome (agent env_B_fails i ([task_A, task_B, task_C] ! i)) = Inr v"
    by simp
  have second: "query_outcome (agent env_B_fails 1 ([task_A, task_B, task_C] ! 1))
      = Inl (TaskExecutionFailed ''error_during_execution'')"
    by (simp add: env_B_fails_def)
  from task_order_and_abort [of env_B_fails "[task_A, task_B, task_C]"] first second a0
  have "fst (main env_B_fails [task_A, task_B, task_C] init_state)
        = Inl (TaskExecutionFailed ''error_during_execution'')
      \<and> completedTaskIds (snd (main env_B_fails [task_A, task_B, task_C] init_state))
          = map task_id (take 1 [task_A, task_B, task_C])
      \<and> invoked (snd (main env_B_fails [task_A, task_B, task_C] init_state))
          = take (Suc 1) [task_A, task_B, task_C]"
    by (elim conjE allE [of _ 1] allE [of _ "TaskExecutionFailed ''error_during_execution''"]) simp
  then show ?thesis by (simp add: task_A_def)
qed

section \<open>Files recorded in a run\<close>

lemma distinct_close_stream:
  "distinct (filesChanged s) \<Longrightarrow> distinct (filesChanged (snd (close_stream tasks es s)))"
  by (induction tasks es s rule: close_stream.induct) (simp_all add: distinct_run_hook)

lemma distinct_for_await:
  "distinct (filesChanged s) \<Longrightarrow> distinct (filesChanged (snd (snd (for_await tasks es s))))"
proof (induction tasks es s rule: for_await.induct)
  case (4 tasks m es s)
  then show ?case
    using distinct_close_stream [of s tasks es]
    by (auto simp: Let_def split: prod.splits)
qed (simp_all add: distinct_run_hook)

lemma distinct_run_query:
  "distinct (filesChanged s) \<Longrightarrow> distinct (filesChanged (snd (run_query tasks es s)))"
  using distinct_for_await [of s tasks es]
  by (auto simp: run_query_def split: prod.splits option.splits)

lemma distinct_task_loop:
  "distinct (filesChanged s) \<Longrightarrow> distinct (filesChanged (snd (task_loop ev tasks ts s)))"
proof (induction ts arbitrary: s)
  case Nil
  then show ?case by (simp add: ret_def)
next
  case (Cons t rest)
  let ?q = "run_query tasks (agent ev (length (invoked s)) t) (task_started t s)"
  have d: "distinct (filesChanged (snd ?q))"
    using Cons.prems by (intro distinct_run_query) (simp add: task_started_def)
  show ?case
  proof (cases ?q)
    case (Pair r s1)
    with d have d1: "distinct (filesChanged s1)" by simp
    show ?thesis
    proof (cases r)
      case (Inl e)
      with Pair d1 show ?thesis by (simp add: task_loop_Cons task_failed_def)
    next
      case (Inr v)
      have "distinct (filesChanged (task_completed t s1))"
        using d1 by (simp add: task_completed_def)
      from Cons.IH [OF this] Pair Inr show ?thesis by (simp add: task_loop_Cons)
    qed
  qed
qed

text \<open>In every run, \<^verbatim>\<open>filesChanged\<close> ends without a repeated entry.\<close>

lemma distinct_filesChanged_main:
  "distinct (filesChanged (snd (main ev tasks init_state)))"
proof -
  have l: "distinct (filesChanged (snd (task_loop ev tasks tasks run_started)))"
    by (intro distinct_task_loop) (simp add: run_started_def init_state_def)
  show ?thesis
  proof (cases "task_loop ev tasks tasks run_started")
    case (Pair r s1)
    with l have d1: "distinct (filesChanged s1)" by simp
    show ?thesis
    proof (cases r)
      case (Inl e)
      with Pair d1 show ?thesis by (simp add: main_eq)
    next
      case (Inr u)
      with Pair have loop: "task_loop ev tasks tasks run_started = (Inr u, s1)" by simp
      from main_after_normal_exit [OF loop] keeps_fields [OF keeps_build_and_publish, of ev s1] d1
      show ?thesis by simp
    qed
  qed
qed

section \<open>Faults of the stream\<close>

lemma for_await_skip:
  "list_all side_channel pre \<Longrightarrow>
   \<exists>s1. for_await tasks (pre @ es) s = for_await tasks es s1"
proof (induction pre arbitrary: s)
  case Nil
  show ?case by auto
next
  case (Cons ev pre)
  then show ?case by (cases ev) (auto simp: side_channel_def)
qed

lemma query_outcome_skip:
  assumes "list_all side_channel pre"
  shows "query_outcome (pre @ es) = query_outcome es"
proof -
  from for_await_skip [OF assms, of "[]" es init_state] obtain s1 where
    "for_await [] (pre @ es) init_state = for_await [] es s1" by blast
  then have "fst (run_query [] (pre @ es) init_state) = fst (run_query [] es s1)"
    by (simp add: run_query_def)
  then show ?thesis
    by (simp add: query_outcome_def run_query_outcome [of "[]" es s1, unfolded query_outcome_def])
qed

text \<open>
  After side-channel events, a success message with a truthy result decides the outcome,
  whatever follows it, a fault included; and a fault of the iteration before any result
  is the outcome.
\<close>

lemma fault_after_success_suppressed:
  assumes "list_all side_channel pre" and "mtype m = ''result''" and "subtype m = ''success''"
    and "truthy (result m)"
  shows "query_outcome (pre @ Yield m # rest) = Inr (result m)"
  using assms(2-4)
  by (simp add: query_outcome_skip [OF assms(1)])
     (auto simp: query_outcome_def run_query_def Let_def split: prod.splits option.splits)

lemma fault_before_success_propagates:
  assumes "list_all side_channel pre"
  shows "query_outcome (pre @ Throw f # rest) = Inl (IteratorFault f)"
  by (simp add: query_outcome_skip [OF assms]) (simp add: query_outcome_def run_query_def)

text \<open>
  C3. On a stream that yields a success message whose \<^verbatim>\<open>result\<close> is the empty string
  and whose iteration then throws, the query throws that fault and the task fails: the
  test \<^verbatim>\<open>if (finalResult)\<close> of the handler is false for the empty string. The comment
  at that test says that a fault after a success result is not to fail the task. With a
  truthy result the fault is suppressed and the outcome is the captured result, and a
  fault before any success propagates (the two lemmas above).
\<close>

theorem empty_success_then_fault:
  "run_query [] [Yield (success_message (JStr [])), Throw cleanup_fault] init_state
     = (Inl (IteratorFault cleanup_fault), init_state)"
  by (simp add: run_query_def success_message_def Let_def)

text \<open>
  Without any fault, the same success message makes the task fail with the error of line
  464, by the test \<^verbatim>\<open>if (!finalResult)\<close>.
\<close>

lemma empty_success_alone:
  "run_query [] [Yield (success_message (JStr []))] init_state = (Inl NoResultReceived, init_state)"
  by (simp add: run_query_def success_message_def Let_def)

section \<open>The signature\<close>

lemma defined_properties_append:
  "defined_properties (a @ b) = defined_properties a @ defined_properties b"
  by (simp add: defined_properties_def)

lemma payload_has_no_signature:
  "without_signature (defined_properties (payload projectId timestamp u))
     = defined_properties (payload projectId timestamp u)"
  by (cases "buildStatus u"; cases "error u")
     (simp_all add: payload_def defined_properties_def without_signature_def)

lemma payload_signature_lookup:
  "map_of (defined_properties (payload projectId timestamp u)) ''signature'' = None"
  by (cases "buildStatus u"; cases "error u")
     (simp_all add: payload_def defined_properties_def)

text \<open>
  C4. The transmitted signature is the keyed hash (\<open>hmac\<close>: HMAC-SHA256 in hexadecimal
  digits, keyed by the webhook secret) of the JSON text of the payload, and the payload
  has no signature field. The envelope is the payload followed by the signature field,
  and the body is its JSON text. The signature is a function of the secret and the
  payload, and the receiver's recomputation over the received object without its
  signature field accepts it.
\<close>

theorem signature_is_hmac_of_payload:
  "signature (webhook_request hmac text secret projectId timestamp u)
     = hmac secret (JSON_stringify text (payload projectId timestamp u))
   \<and> envelope (webhook_request hmac text secret projectId timestamp u)
     = payload projectId timestamp u
       @ [(''signature'',
           Some (JsonString (signature (webhook_request hmac text secret projectId timestamp u))))]
   \<and> body (webhook_request hmac text secret projectId timestamp u)
     = JSON_stringify text (envelope (webhook_request hmac text secret projectId timestamp u))
   \<and> map_of (payload projectId timestamp u) ''signature'' = None
   \<and> without_signature
       (defined_properties (envelope (webhook_request hmac text secret projectId timestamp u)))
     = defined_properties (payload projectId timestamp u)
   \<and> verify_signature hmac text secret
       (defined_properties (envelope (webhook_request hmac text secret projectId timestamp u)))"
proof -
  let ?r = "webhook_request hmac text secret projectId timestamp u"
  let ?p = "payload projectId timestamp u"
  have sig: "signature ?r = hmac secret (JSON_stringify text ?p)"
    by (simp add: webhook_request_def Let_def)
  have env: "envelope ?r = ?p @ [(''signature'', Some (JsonString (signature ?r)))]"
    by (simp add: webhook_request_def Let_def)
  have bdy: "body ?r = JSON_stringify text (envelope ?r)"
    by (simp add: webhook_request_def Let_def)
  have nosig: "map_of ?p ''signature'' = None"
    by (simp add: payload_def)
  have wo: "without_signature (defined_properties (envelope ?r)) = defined_properties ?p"
    using payload_has_no_signature [of projectId timestamp u]
    by (simp add: env defined_properties_append)
       (simp add: without_signature_def defined_properties_def)
  have "map_of (defined_properties (envelope ?r)) ''signature'' = Some (JsonString (signature ?r))"
    using payload_signature_lookup [of projectId timestamp u]
    by (simp add: env defined_properties_append map_add_def)
       (simp add: defined_properties_def)
  then have ver: "verify_signature hmac text secret (defined_properties (envelope ?r))"
    by (simp add: verify_signature_def wo sig JSON_stringify_def)
  from sig env bdy nosig wo ver show ?thesis by blast
qed

section \<open>Build failures\<close>

lemma build_started_fields [simp]:
  "sent (build_started s) = sent s @ [building_update s]"
  "execd (build_started s) = execd s @ [''npm run build'']"
  "completedTaskIds (build_started s) = completedTaskIds s"
  "filesChanged (build_started s) = filesChanged s"
  "invoked (build_started s) = invoked s"
  by (simp_all add: build_started_def)

lemma build_succeeded_fields [simp]:
  "sent (build_succeeded s) = sent s @ [building_update s, build_successful_update s]"
  "completedTaskIds (build_succeeded s) = completedTaskIds s"
  "filesChanged (build_succeeded s) = filesChanged s"
  by (simp_all add: build_succeeded_def build_started_def)

lemma build_and_publish_rejected:
  assumes "build_rejected (build_result ev s)"
  shows "\<exists>e. build_and_publish ev s = (Inl e, build_started s)"
  using assms by (auto simp: build_and_publish_eq build_rejected_def Let_def)

lemma build_and_publish_accepted:
  assumes "\<not> build_rejected (build_result ev s)"
  shows "build_and_publish ev s = publication ev (build_succeeded s)"
  using assms by (auto simp: build_and_publish_eq build_rejected_def Let_def try_catch_throw)

text \<open>
  C7, as amended. A build failure is thrown exactly when the child process of the build
  exits with a code other than zero, or exits with zero and a standard error that is not
  empty and contains neither \<^verbatim>\<open>warning\<close> nor \<^verbatim>\<open>WARN\<close>. When it is thrown, nothing
  of the publication has run: the only command after the notification before the build
  is the build's, and no further notification is sent.
\<close>

theorem build_failure_condition:
  "((\<exists>e. fst (build_and_publish ev s) = Inl e)
      = (exit_code (build_result ev s) \<noteq> 0
         \<or> (stderr (build_result ev s) \<noteq> []
            \<and> \<not> str_includes (stderr (build_result ev s)) ''warning''
            \<and> \<not> str_includes (stderr (build_result ev s)) ''WARN'')))
   \<and> ((\<exists>e. fst (build_and_publish ev s) = Inl e)
        \<longrightarrow> execd (snd (build_and_publish ev s)) = execd s @ [''npm run build'']
          \<and> sent (snd (build_and_publish ev s))
              = sent s @ [\<lparr>status = ''running'', currentTask = ''Running build command...'',
                           completedTasks = completedTaskIds s, changedFiles = [],
                           buildStatus = Some ''building'', error = None\<rparr>])"
proof (cases "build_rejected (build_result ev s)")
  case True
  from build_and_publish_rejected [OF True] obtain e where
    "build_and_publish ev s = (Inl e, build_started s)" by blast
  with True show ?thesis
    by (simp add: build_rejected_def building_update_def)
next
  case False
  from publication_returns [of ev "build_succeeded s"] obtain s' where
    "publication ev (build_succeeded s) = (Inr (), s')" by blast
  with build_and_publish_accepted [OF False] have "fst (build_and_publish ev s) = Inr ()"
    by simp
  with False show ?thesis
    by (simp add: build_rejected_def)
qed

theorem build_failure_condition_witness:
  "(\<exists>e. fst (build_and_publish env_build_stderr init_state) = Inl e)
   \<and> execd (snd (build_and_publish env_build_stderr init_state)) = [''npm run build'']
   \<and> sent (snd (build_and_publish env_build_stderr init_state))
       = [\<lparr>status = ''running'', currentTask = ''Running build command...'',
           completedTasks = [], changedFiles = [],
           buildStatus = Some ''building'', error = None\<rparr>]"
proof -
  have r: "build_result env_build_stderr init_state
      = \<lparr>exit_code = 0, stdout = [], stderr = ''error TS2304''\<rparr>"
    by (simp add: build_result_def env_build_stderr_def exec_build_stderr_def)
  have "stderr (build_result env_build_stderr init_state) \<noteq> []
      \<and> \<not> str_includes (stderr (build_result env_build_stderr init_state)) ''warning''
      \<and> \<not> str_includes (stderr (build_result env_build_stderr init_state)) ''WARN''"
    by (simp add: r)
  with build_failure_condition [of env_build_stderr init_state] show ?thesis
    by (simp add: init_state_def)
qed

text \<open>
  The claim as first stated fails on two inputs. A build that exits with code 1 and has
  \<^verbatim>\<open>WARN\<close> in its standard error is a failure: the promise of \<^verbatim>\<open>execAsync\<close>
  rejects before the test of the standard error is reached. And a build that exits with
  code 0 is a failure when its standard error is not empty and has neither word.
\<close>

theorem build_failure_counterexample:
  "exit_code (build_result env_build_warns init_state) = 1
   \<and> str_includes (stderr (build_result env_build_warns init_state)) ''WARN''
   \<and> fst (build_and_publish env_build_warns init_state)
       = Inl (CommandFailed ''npm run build'' (build_result env_build_warns init_state))
   \<and> exit_code (build_result env_build_stderr init_state) = 0
   \<and> fst (build_and_publish env_build_stderr init_state) = Inl (BuildFailed ''error TS2304'')"
proof -
  have w: "build_result env_build_warns init_state
      = \<lparr>exit_code = 1, stdout = [], stderr = ''npm WARN deprecated''\<rparr>"
    by (simp add: build_result_def env_build_warns_def exec_build_warns_def)
  have e: "build_result env_build_stderr init_state
      = \<lparr>exit_code = 0, stdout = [], stderr = ''error TS2304''\<rparr>"
    by (simp add: build_result_def env_build_stderr_def exec_build_stderr_def)
  have "str_includes ''npm WARN deprecated'' ''WARN''" by simp
  moreover have "fst (build_and_publish env_build_warns init_state)
       = Inl (CommandFailed ''npm run build'' (build_result env_build_warns init_state))"
    by (simp add: build_and_publish_eq Let_def w)
  moreover have "fst (build_and_publish env_build_stderr init_state) = Inl (BuildFailed ''error TS2304'')"
    by (simp add: build_and_publish_eq Let_def e)
  ultimately show ?thesis by (simp add: w e)
qed

section \<open>Failures of the publication\<close>

lemma publication_reported:
  "\<exists>s'. publication ev s = (Inr (), s')
     \<and> ((\<exists>url token. githubUrl ev = Some url \<and> githubToken ev = Some token
             \<and> url \<noteq> [] \<and> token \<noteq> []
             \<and> (reported ''Code committed and pushed to GitHub'' s'
                \<or> reported ''Build successful (Git push failed)'' s'))
        \<or> (s' = s \<and> \<not> (\<exists>url token. githubUrl ev = Some url \<and> githubToken ev = Some token
             \<and> url \<noteq> [] \<and> token \<noteq> [])))"
proof (cases "\<exists>url token. githubUrl ev = Some url \<and> githubToken ev = Some token
             \<and> url \<noteq> [] \<and> token \<noteq> []")
  case True
  then obtain url token where c: "githubUrl ev = Some url" "githubToken ev = Some token"
    "url \<noteq> []" "token \<noteq> []" by blast
  then have "publication ev s = publish ev url token s"
    by (simp add: publication_def)
  with publish_reported [of ev url token s] c show ?thesis by auto
next
  case False
  then have "publication ev s = (Inr (), s)"
    by (auto simp: publication_def ret_def split: option.splits)
  with False show ?thesis by blast
qed

lemma all_tasks_succeed:
  assumes "\<forall>i<length tasks. \<exists>v. query_outcome (agent ev i (tasks ! i)) = Inr v"
  obtains s1 where "task_loop ev tasks tasks run_started = (Inr (), s1)"
    "completedTaskIds s1 = map task_id tasks" "length (execd s1) = length tasks"
proof -
  from assms have "fst (task_loop ev tasks tasks run_started) = Inr ()"
    by (intro task_loop_all_succeed) simp
  then obtain s1 where loop: "task_loop ev tasks tasks run_started = (Inr (), s1)"
    by (cases "task_loop ev tasks tasks run_started") auto
  from task_loop_normal_exit [OF loop] have
    "completedTaskIds s1 = map task_id tasks" "length (execd s1) = length tasks"
    by simp_all
  with loop show ?thesis by (rule that)
qed

text \<open>
  C6. When the invocation of every task succeeds and the build succeeds (exit code zero,
  and a standard error that is empty or contains \<^verbatim>\<open>warning\<close> or \<^verbatim>\<open>WARN\<close>), the run
  returns whatever the commands of the publication do: the process exits with 0, and the
  last notification sent has status \<^verbatim>\<open>completed\<close> and build status \<^verbatim>\<open>success\<close>.
  When the publication runs, that notification is the one sent after the push or the one
  sent by the handler of the publication's errors. After one status query for each task,
  the build is the child process with the number \<open>length tasks\<close>.
\<close>

theorem publication_failure_not_fatal:
  assumes "\<forall>i<length tasks. \<exists>v. query_outcome (agent ev i (tasks ! i)) = Inr v"
    and "exit_code (exec ev (length tasks) ''npm run build'') = 0"
    and "stderr (exec ev (length tasks) ''npm run build'') = []
         \<or> str_includes (stderr (exec ev (length tasks) ''npm run build'')) ''warning''
         \<or> str_includes (stderr (exec ev (length tasks) ''npm run build'')) ''WARN''"
  shows "fst (main ev tasks init_state) = Inr ()
    \<and> exit_status ev tasks = 0
    \<and> sent (snd (main ev tasks init_state)) \<noteq> []
    \<and> status (last (sent (snd (main ev tasks init_state)))) = ''completed''
    \<and> buildStatus (last (sent (snd (main ev tasks init_state)))) = Some ''success''
    \<and> (\<forall>url token. githubUrl ev = Some url \<and> githubToken ev = Some token
           \<and> url \<noteq> [] \<and> token \<noteq> []
         \<longrightarrow> currentTask (last (sent (snd (main ev tasks init_state))))
               \<in> set [''Code committed and pushed to GitHub'',
                       ''Build successful (Git push failed)''])"
proof -
  from assms(1) obtain s1 where loop: "task_loop ev tasks tasks run_started = (Inr (), s1)"
    and len: "length (execd s1) = length tasks"
    by (rule all_tasks_succeed)
  have "\<not> build_rejected (build_result ev s1)"
    using assms(2,3) by (auto simp: build_rejected_def build_result_def len)
  then have "build_and_publish ev s1 = publication ev (build_succeeded s1)"
    by (rule build_and_publish_accepted)
  with main_after_normal_exit [OF loop]
  have m: "main ev tasks init_state = publication ev (build_succeeded s1)" by simp
  from publication_reported [of ev "build_succeeded s1"] obtain s' where
    p: "publication ev (build_succeeded s1) = (Inr (), s')"
    and r: "(\<exists>url token. githubUrl ev = Some url \<and> githubToken ev = Some token
             \<and> url \<noteq> [] \<and> token \<noteq> []
             \<and> (reported ''Code committed and pushed to GitHub'' s'
                \<or> reported ''Build successful (Git push failed)'' s'))
        \<or> (s' = build_succeeded s1 \<and> \<not> (\<exists>url token. githubUrl ev = Some url
             \<and> githubToken ev = Some token \<and> url \<noteq> [] \<and> token \<noteq> []))"
    by blast
  have ret: "fst (main ev tasks init_state) = Inr ()" using m p by simp
  then have ex: "exit_status ev tasks = 0" by (simp add: exit_status_def)
  have st: "snd (main ev tasks init_state) = s'" using m p by simp
  from r show ?thesis
  proof
    assume "\<exists>url token. githubUrl ev = Some url \<and> githubToken ev = Some token
             \<and> url \<noteq> [] \<and> token \<noteq> []
             \<and> (reported ''Code committed and pushed to GitHub'' s'
                \<or> reported ''Build successful (Git push failed)'' s')"
    then have "reported ''Code committed and pushed to GitHub'' s'
                \<or> reported ''Build successful (Git push failed)'' s'" by blast
    then show ?thesis
      using ret ex st by (auto simp: reported_def)
  next
    assume "s' = build_succeeded s1 \<and> \<not> (\<exists>url token. githubUrl ev = Some url
             \<and> githubToken ev = Some token \<and> url \<noteq> [] \<and> token \<noteq> [])"
    then show ?thesis
      using ret ex st by (auto simp: build_successful_update_def)
  qed
qed

theorem publication_failure_not_fatal_witness:
  "fst (main env_git_fails [task_A] init_state) = Inr ()
   \<and> exit_status env_git_fails [task_A] = 0
   \<and> status (last (sent (snd (main env_git_fails [task_A] init_state)))) = ''completed''
   \<and> buildStatus (last (sent (snd (main env_git_fails [task_A] init_state)))) = Some ''success''
   \<and> currentTask (last (sent (snd (main env_git_fails [task_A] init_state))))
       = ''Build successful (Git push failed)''"
proof -
  have tasks: "\<forall>i<length [task_A]. \<exists>v. query_outcome (agent env_git_fails i ([task_A] ! i)) = Inr v"
    by (simp add: env_git_fails_def)
  have build: "exec env_git_fails (length [task_A]) ''npm run build''
      = \<lparr>exit_code = 0, stdout = [], stderr = []\<rparr>"
    by (simp add: env_git_fails_def exec_git_fails_def)
  have url: "githubUrl env_git_fails = Some ''https://github.com/owner/repo''
      \<and> githubToken env_git_fails = Some ''token''"
    by (simp add: env_git_fails_def)
  have git: "currentTask (last (sent (snd (main env_git_fails [task_A] init_state))))
      = ''Build successful (Git push failed)''"
    by code_simp
  from publication_failure_not_fatal [of "[task_A]" env_git_fails, OF tasks] build url git
  show ?thesis by simp
qed

section \<open>The guard after the loop\<close>

text \<open>
  C8. The run never throws the error of the guard that follows the loop. And whenever
  the task loop exits normally, \<^verbatim>\<open>completedTaskIds\<close> is the list of the identifiers
  of the tasks, one entry for each task in order, so that its length is the length of
  the task list.
\<close>

theorem loop_exit_completes_all:
  "fst (main ev tasks init_state) \<noteq> Inl CannotBuild
   \<and> (\<forall>u s1. task_loop ev tasks tasks run_started = (Inr u, s1)
        \<longrightarrow> completedTaskIds s1 = map task_id tasks
          \<and> length (completedTaskIds s1) = length tasks)"
proof (intro conjI allI impI)
  show "fst (main ev tasks init_state) \<noteq> Inl CannotBuild"
  proof (cases "task_loop ev tasks tasks run_started")
    case (Pair r s1)
    show ?thesis
    proof (cases r)
      case (Inl e)
      with Pair have "fst (task_loop ev tasks tasks run_started) = Inl e" by simp
      from task_loop_error [OF this] main_after_failure [OF this] show ?thesis by simp
    next
      case (Inr u)
      with Pair have loop: "task_loop ev tasks tasks run_started = (Inr u, s1)" by simp
      have "fst (build_and_publish ev s1) \<noteq> Inl CannotBuild"
      proof (cases "build_rejected (build_result ev s1)")
        case True
        then show ?thesis
          by (auto simp: build_and_publish_eq build_rejected_def Let_def)
      next
        case False
        from publication_returns [of ev "build_succeeded s1"]
          build_and_publish_accepted [OF False] show ?thesis by auto
      qed
      with main_after_normal_exit [OF loop] show ?thesis by simp
    qed
  qed
next
  fix u s1
  assume loop: "task_loop ev tasks tasks run_started = (Inr u, s1)"
  from task_loop_normal_exit [OF loop]
  show "completedTaskIds s1 = map task_id tasks" by simp
  then show "length (completedTaskIds s1) = length tasks" by simp
qed

theorem loop_exit_completes_all_witness:
  "fst (task_loop env_git_fails embedded_tasks embedded_tasks run_started) = Inr ()
   \<and> completedTaskIds (snd (task_loop env_git_fails embedded_tasks embedded_tasks run_started))
       = [''TASK-002'', ''TASK-004'', ''TASK-010'']
   \<and> fst (main env_git_fails embedded_tasks init_state) \<noteq> Inl CannotBuild"
proof -
  let ?loop = "task_loop env_git_fails embedded_tasks embedded_tasks run_started"
  have "\<forall>i<length embedded_tasks.
      \<exists>v. query_outcome (agent env_git_fails (length (invoked run_started) + i)
                          (embedded_tasks ! i)) = Inr v"
    by (simp add: env_git_fails_def)
  then have ok: "fst ?loop = Inr ()"
    by (rule task_loop_all_succeed)
  then have "?loop = (Inr (), snd ?loop)"
    by (metis prod.collapse)
  with loop_exit_completes_all [of env_git_fails embedded_tasks]
  have "completedTaskIds (snd ?loop) = map task_id embedded_tasks"
    and "fst (main env_git_fails embedded_tasks init_state) \<noteq> Inl CannotBuild"
    by blast+
  with ok show ?thesis
    by (simp add: embedded_tasks_def)
qed

section \<open>The notifications around the build\<close>

text \<open>
  C10. Whatever \<^verbatim>\<open>filesChanged\<close> holds, the notification sent before the build
  (\<^verbatim>\<open>running\<close>, \<^verbatim>\<open>Running build command...\<close>, \<^verbatim>\<open>building\<close>) carries an empty list
  of files, and when the build succeeds so does the one sent next (\<^verbatim>\<open>completed\<close>,
  \<^verbatim>\<open>Build successful\<close>, \<^verbatim>\<open>success\<close>).
\<close>

theorem build_notifications_without_files:
  "take (Suc (length (sent s))) (sent (snd (build_and_publish ev s)))
     = sent s @ [\<lparr>status = ''running'', currentTask = ''Running build command...'',
                  completedTasks = completedTaskIds s, changedFiles = [],
                  buildStatus = Some ''building'', error = None\<rparr>]
   \<and> (exit_code (build_result ev s) = 0
       \<and> (stderr (build_result ev s) = []
          \<or> str_includes (stderr (build_result ev s)) ''warning''
          \<or> str_includes (stderr (build_result ev s)) ''WARN'')
      \<longrightarrow> take (Suc (Suc (length (sent s)))) (sent (snd (build_and_publish ev s)))
          = sent s @ [\<lparr>status = ''running'', currentTask = ''Running build command...'',
                       completedTasks = completedTaskIds s, changedFiles = [],
                       buildStatus = Some ''building'', error = None\<rparr>,
                      \<lparr>status = ''completed'', currentTask = ''Build successful'',
                       completedTasks = completedTaskIds s, changedFiles = [],
                       buildStatus = Some ''success'', error = None\<rparr>])"
proof (cases "build_rejected (build_result ev s)")
  case True
  from build_and_publish_rejected [OF True] obtain e where
    "build_and_publish ev s = (Inl e, build_started s)" by blast
  with True show ?thesis
    by (auto simp: build_rejected_def building_update_def)
next
  case False
  let ?s2 = "build_succeeded s"
  have eq: "build_and_publish ev s = publication ev ?s2"
    using False by (rule build_and_publish_accepted)
  have "prefix (sent ?s2) (sent (snd (publication ev ?s2)))"
    using keeps_fields [OF keeps_publication, of ev ?s2] by blast
  then obtain rest where
    rest: "sent (snd (publication ev ?s2)) = sent ?s2 @ rest"
    by (auto simp: prefix_def)
  show ?thesis
    by (simp add: eq rest building_update_def build_successful_update_def)
qed

theorem build_notifications_without_files_witness:
  "filesChanged state_with_files = [''src/App.tsx'', ''src/main.tsx'']
   \<and> take (Suc (Suc (length (sent state_with_files))))
        (sent (snd (build_and_publish env_git_fails state_with_files)))
     = [\<lparr>status = ''running'', currentTask = ''Running build command...'',
         completedTasks = [''A''], changedFiles = [],
         buildStatus = Some ''building'', error = None\<rparr>,
        \<lparr>status = ''completed'', currentTask = ''Build successful'',
         completedTasks = [''A''], changedFiles = [],
         buildStatus = Some ''success'', error = None\<rparr>]"
proof -
  have r: "build_result env_git_fails state_with_files
      = \<lparr>exit_code = 0, stdout = [], stderr = []\<rparr>"
    by (simp add: build_result_def env_git_fails_def exec_git_fails_def)
  have s: "sent state_with_files = []" "completedTaskIds state_with_files = [''A'']"
    "filesChanged state_with_files = [''src/App.tsx'', ''src/main.tsx'']"
    by (simp_all add: state_with_files_def init_state_def)
  from build_notifications_without_files [of state_with_files env_git_fails] r s
  show ?thesis by simp
qed

end
